theory Spec2Isabelle
  imports Complex_Main "HOL-Library.AList" "HOL-Library.Multiset"
begin

section \<open>Conventions of the embedding\<close>

text \<open>
  The development embeds the layout engine (\<^verbatim>\<open>engine/layout.ts\<close>), the physics simulator
  (\<^verbatim>\<open>engine/physics.ts\<close>) and the geometry kernel (\<^verbatim>\<open>engine/math.ts\<close>).

  \<^item> A JavaScript \<^verbatim>\<open>number\<close> that the simulator stores is a \<^typ>\<open>real\<close>: finite, and without
    rounding error. The options of the layout engine are not validated and it divides by
    two of them, so its options and results are values of the type \<open>num\<close> below, which
    also has \<^verbatim>\<open>NaN\<close> and the two infinities. In both parts arithmetic on finite numbers
    is exact: the rounding and the overflow of IEEE doubles are not modelled, and a
    statement about the value of a number is a statement about exact arithmetic.
  \<^item> Record fields carry the name of the source field, with the record's name in front
    where two interfaces share a field name (\<open>node_id\<close>, \<open>frame_position\<close>); the
    coordinates \<^verbatim>\<open>x\<close> and \<^verbatim>\<open>y\<close> of a \<^verbatim>\<open>Position\<close> are \<open>xc\<close> and \<open>yc\<close>.
  \<^item> A \<^verbatim>\<open>Map\<close> whose iteration order the code observes is an association list kept in
    insertion order (\<^const>\<open>AList.update\<close> overwrites in place and appends a new key); a
    \<^verbatim>\<open>Map\<close> that is only read by key is a HOL map. A plain object used as a dictionary
    is the HOL map of its own properties, written through \<open>assignProperty\<close>.
  \<^item> Mutation of the simulation state is explicit state passing: a function that mutates
    the state map returns the new map.
\<close>

section \<open>Geometry kernel (engine/math.ts)\<close>

type_synonym NodeId = string

record 'n Position =
  xc :: 'n
  yc :: 'n

definition clamp :: "real \<Rightarrow> real \<Rightarrow> real \<Rightarrow> real" where
  "clamp v lo hi = max lo (min hi v)"

text \<open>\<^verbatim>\<open>Math.round\<close> rounds a half towards plus infinity, as \<^const>\<open>round\<close> does.
  For a grid size of zero JavaScript yields \<^verbatim>\<open>NaN\<close>; statements about the simulator that
  depend on the value of a snapped coordinate assume a non-zero grid.\<close>

definition snapToGrid :: "real \<Rightarrow> real \<Rightarrow> real" where
  "snapToGrid v gridSize = real_of_int (round (v / gridSize)) * gridSize"

definition snapPosition :: "real Position \<Rightarrow> real \<Rightarrow> real Position" where
  "snapPosition p gridSize =
     \<lparr>xc = snapToGrid (xc p) gridSize, yc = snapToGrid (yc p) gridSize\<rparr>"

definition distanceSquared :: "real Position \<Rightarrow> real Position \<Rightarrow> real" where
  "distanceSquared a b =
     (let dx = xc a - xc b; dy = yc a - yc b in dx * dx + dy * dy)"

definition distance :: "real Position \<Rightarrow> real Position \<Rightarrow> real" where
  "distance a b = sqrt (distanceSquared a b)"

section \<open>Simulation state (engine/physics.ts)\<close>

record PhysicsNodeState =
  position :: "real Position"
  velocity :: "real Position"
  target :: "real Position"

type_synonym PhysicsState = "NodeId \<rightharpoonup> PhysicsNodeState"

definition createZeroVector :: "real Position" where
  "createZeroVector = \<lparr>xc = 0, yc = 0\<rparr>"

text \<open>\<^verbatim>\<open>syncPhysicsTargets\<close> walks \<^verbatim>\<open>Object.entries(layout)\<close>. The layout is an object, so
  each id occurs once; it is given here as the list of its entries.\<close>

definition syncEntry ::
  "real \<Rightarrow> NodeId \<times> real Position \<Rightarrow> PhysicsState \<Rightarrow> PhysicsState" where
  "syncEntry gridSnap kv state =
     (case state (fst kv) of
        Some existing \<Rightarrow>
          state(fst kv \<mapsto> existing\<lparr>target := snapPosition (snd kv) gridSnap\<rparr>)
      | None \<Rightarrow>
          state(fst kv \<mapsto>
            \<lparr>position = snapPosition (snd kv) gridSnap,
             velocity = createZeroVector,
             target = snapPosition (snd kv) gridSnap\<rparr>))"

definition syncPhysicsTargets ::
  "PhysicsState \<Rightarrow> (NodeId \<times> real Position) list \<Rightarrow> real \<Rightarrow> PhysicsState" where
  "syncPhysicsTargets state layout gridSnap = fold (syncEntry gridSnap) layout state"

section \<open>Data model (types/core.ts)\<close>

datatype NodeKind = NOTE | IDEA | TASK | TAG

datatype EdgeType =
  CAUSES | SUPPORTS | CONTRASTS | EXTENDS | PART_OF | LINKS | DEPENDS_ON | RELATES

text \<open>Of a \<^verbatim>\<open>Node\<close>, an \<^verbatim>\<open>Edge\<close> and a \<^verbatim>\<open>Frame\<close> the fields that the two engines read.\<close>

record Node =
  node_id :: NodeId
  node_tags :: "string list"
  node_createdAt :: real
  node_kind :: NodeKind
  node_position :: "real Position"
  node_locked :: bool
  node_frameId :: "string option"

record Edge =
  edge_sourceId :: NodeId
  edge_targetId :: NodeId
  edge_type :: EdgeType

record Size =
  width :: real
  height :: real

record Frame =
  frame_id :: string
  frame_position :: "real Position"
  frame_size :: Size

record Forces =
  spring :: real
  repulsion :: real
  frameMagnet :: real

record PhysicsConstraints =
  maxOffset :: real
  returnDuration :: real
  enablePhysics :: bool
  gridSnap :: real
  repulsionRadius :: real
  forces :: Forces

section \<open>The simulation step (engine/physics.ts)\<close>

definition ensureStateForNode :: "PhysicsState \<Rightarrow> Node \<Rightarrow> real \<Rightarrow> PhysicsState" where
  "ensureStateForNode state node grid =
     (case state (node_id node) of
        Some entry \<Rightarrow> state
      | None \<Rightarrow>
          state(node_id node \<mapsto>
            \<lparr>position = snapPosition (node_position node) grid,
             velocity = createZeroVector,
             target = snapPosition (node_position node) grid\<rparr>))"

definition FRAME_FORCE_MULTIPLIER :: real where
  "FRAME_FORCE_MULTIPLIER = 0.15"

definition addFrameCenter ::
  "Frame \<Rightarrow> (string \<rightharpoonup> real Position) \<Rightarrow> (string \<rightharpoonup> real Position)" where
  "addFrameCenter frame frameCenters =
     frameCenters(frame_id frame \<mapsto>
       \<lparr>xc = xc (frame_position frame) + width (frame_size frame) / 2,
        yc = yc (frame_position frame) + height (frame_size frame) / 2\<rparr>)"

text \<open>The branch for disabled physics: \<^verbatim>\<open>state.forEach\<close> over every entry of the map.\<close>

definition freezeEntries :: "PhysicsState \<Rightarrow> real \<Rightarrow> PhysicsState" where
  "freezeEntries state grid =
     (\<lambda>k. case state k of
            None \<Rightarrow> None
          | Some entry \<Rightarrow>
              Some (entry\<lparr>position := snapPosition (target entry) grid,
                          velocity := createZeroVector\<rparr>))"

text \<open>\<^verbatim>\<open>entries\<close> pairs each node of the list with \<^verbatim>\<open>state.get(node.id)!\<close>, the one entry
  object of that id, so the loops over \<^verbatim>\<open>entries\<close> are loops over the node list that read
  and write the state at the node's id. The entry exists, since \<open>ensureStateForNode\<close> has
  run for every node of the list; the \<open>None\<close> branches below are never taken.\<close>

definition resnapTarget :: "real \<Rightarrow> Node \<Rightarrow> PhysicsState \<Rightarrow> PhysicsState" where
  "resnapTarget grid node state =
     (case state (node_id node) of
        None \<Rightarrow> state
      | Some physics \<Rightarrow>
          state(node_id node \<mapsto> physics\<lparr>target := snapPosition (target physics) grid\<rparr>))"

text \<open>One round of the inner loop: the repulsion that \<open>other\<close> exerts on the node at
  position \<open>pos\<close>, added to the force accumulated so far.\<close>

definition repel ::
  "PhysicsConstraints \<Rightarrow> PhysicsState \<Rightarrow> Node \<Rightarrow> real Position \<Rightarrow> Node
     \<Rightarrow> real \<times> real \<Rightarrow> real \<times> real" where
  "repel c state node pos otherNode force =
     (if node_id otherNode = node_id node then force
      else case state (node_id otherNode) of
        None \<Rightarrow> force
      | Some otherPhysics \<Rightarrow>
          (let dx = xc pos - xc (position otherPhysics);
               dy = yc pos - yc (position otherPhysics);
               distSq = dx * dx + dy * dy
           in if distSq > 0 \<and> distSq < repulsionRadius c * repulsionRadius c
              then (let dist = (if sqrt distSq = 0 then 1 else sqrt distSq);
                        strength = repulsion (forces c) / distSq
                    in (fst force + (dx / dist) * strength, snd force + (dy / dist) * strength))
              else force))"

text \<open>The body of the main loop for a node that is neither locked nor dragged, in two
  parts. First the force on it (lines 129 to 157): the spring towards the target, the
  magnet of its frame, and the repulsion of the other nodes of the list.\<close>

definition accumulateForce ::
  "PhysicsConstraints \<Rightarrow> (string \<rightharpoonup> real Position) \<Rightarrow> Node list \<Rightarrow> PhysicsState
     \<Rightarrow> Node \<Rightarrow> PhysicsNodeState \<Rightarrow> real \<times> real" where
  "accumulateForce c frameCenters allNodes state node physics =
     (let toTargetX = xc (target physics) - xc (position physics);
          toTargetY = yc (target physics) - yc (position physics);
          springForce = (toTargetX * spring (forces c), toTargetY * spring (forces c));
          frameCenter =
            (case node_frameId node of
               None \<Rightarrow> None
             | Some f \<Rightarrow> if f = [] then None else frameCenters f);
          magnetForce =
            (case frameCenter of
               None \<Rightarrow> springForce
             | Some fc \<Rightarrow>
                 (fst springForce + (xc fc - xc (position physics))
                                      * frameMagnet (forces c) * FRAME_FORCE_MULTIPLIER,
                  snd springForce + (yc fc - yc (position physics))
                                      * frameMagnet (forces c) * FRAME_FORCE_MULTIPLIER))
      in fold (repel c state node (position physics)) allNodes magnetForce)"

text \<open>Then the integration (lines 159 to 192): damped velocity, new position, the hard
  bound on the offset from the target, and the settle check. The result is the entry
  after the step and whether this node counts as still moving.\<close>

definition integrate ::
  "PhysicsConstraints \<Rightarrow> real \<Rightarrow> PhysicsNodeState \<Rightarrow> real \<times> real
     \<Rightarrow> PhysicsNodeState \<times> bool" where
  "integrate c dt physics force =
     (let damping = 0.82;
          vx = (xc (velocity physics) + fst force * dt) * damping;
          vy = (yc (velocity physics) + snd force * dt) * damping;
          px = xc (position physics) + vx * dt;
          py = yc (position physics) + vy * dt;
          offsetX = px - xc (target physics);
          offsetY = py - yc (target physics);
          offsetDistance = sqrt (offsetX * offsetX + offsetY * offsetY);
          bounced = offsetDistance > maxOffset c;
          scaleFactor = maxOffset c / (if offsetDistance = 0 then 1 else offsetDistance);
          pos' = (if bounced
                  then \<lparr>xc = xc (target physics) + offsetX * scaleFactor,
                        yc = yc (target physics) + offsetY * scaleFactor\<rparr>
                  else \<lparr>xc = px, yc = py\<rparr>);
          vel' = (if bounced then \<lparr>xc = vx * 0.6, yc = vy * 0.6\<rparr> else \<lparr>xc = vx, yc = vy\<rparr>);
          velocityMagnitude = sqrt (xc vel' * xc vel' + yc vel' * yc vel')
      in if offsetDistance < gridSnap c * 0.4 \<and> velocityMagnitude < 0.08
         then (physics\<lparr>position := snapPosition (target physics) (gridSnap c),
                       velocity := createZeroVector\<rparr>, False)
         else (physics\<lparr>position := pos', velocity := vel'\<rparr>,
               velocityMagnitude > 0.02 \<or> distanceSquared pos' (target physics) > 4))"

text \<open>The body of the main loop: a locked or dragged node is put on its snapped target
  with zero velocity, any other node is integrated. The second component of the pair is
  \<^verbatim>\<open>hasMovement\<close>.\<close>

definition stepNode ::
  "PhysicsConstraints \<Rightarrow> real \<Rightarrow> NodeId set \<Rightarrow> (string \<rightharpoonup> real Position) \<Rightarrow> Node list
     \<Rightarrow> Node \<Rightarrow> PhysicsState \<times> bool \<Rightarrow> PhysicsState \<times> bool" where
  "stepNode c dt activeDragging frameCenters allNodes node sh =
     (case fst sh (node_id node) of
        None \<Rightarrow> sh
      | Some physics \<Rightarrow>
          if node_locked node \<or> node_id node \<in> activeDragging
          then ((fst sh)(node_id node \<mapsto>
                  physics\<lparr>position := snapPosition (target physics) (gridSnap c),
                          velocity := createZeroVector\<rparr>), snd sh)
          else
            (let stepped = integrate c dt physics
                             (accumulateForce c frameCenters allNodes (fst sh) node physics)
             in ((fst sh)(node_id node \<mapsto> fst stepped), snd sh \<or> snd stepped)))"

text \<open>\<^verbatim>\<open>stepPhysics\<close> takes one object; its fields are the arguments here, the two optional
  ones as options. The result is the state after the call and the returned flag.\<close>

definition stepPhysics ::
  "PhysicsState \<Rightarrow> Node list \<Rightarrow> PhysicsConstraints \<Rightarrow> real \<Rightarrow> NodeId set option
     \<Rightarrow> Frame list option \<Rightarrow> PhysicsState \<times> bool" where
  "stepPhysics state nodes c deltaMs draggingIds frames =
     (if nodes = [] then (state, False)
      else
        (let activeDragging = (case draggingIds of None \<Rightarrow> {} | Some ids \<Rightarrow> ids);
             dt = clamp deltaMs 0 48 / 16.666;
             frameCenters =
               (case frames of None \<Rightarrow> Map.empty | Some fs \<Rightarrow> fold addFrameCenter fs Map.empty);
             ensured = fold (\<lambda>node s. ensureStateForNode s node (gridSnap c)) nodes state
         in if \<not> enablePhysics c then (freezeEntries ensured (gridSnap c), False)
            else fold (stepNode c dt activeDragging frameCenters nodes) nodes
                   (fold (resnapTarget (gridSnap c)) nodes ensured, False)))"

section \<open>Numbers of the layout engine\<close>

text \<open>
  The options of the layout engine are any numbers, and it divides by the grid size and
  by \<^verbatim>\<open>maxPerColumn\<close>, so a coordinate of its result may be \<^verbatim>\<open>NaN\<close> or infinite. Its
  arithmetic is therefore modelled on \<open>num\<close>: a finite real, or one of the three other
  values of a JavaScript number. Finite arithmetic is exact, and there is one zero, which
  divides like \<^verbatim>\<open>+0\<close>.
\<close>

datatype num = Fin real | PosInf | NegInf | NaN

fun num_neg :: "num \<Rightarrow> num" where
  "num_neg (Fin a) = Fin (- a)"
| "num_neg PosInf = NegInf"
| "num_neg NegInf = PosInf"
| "num_neg NaN = NaN"

fun num_add :: "num \<Rightarrow> num \<Rightarrow> num" where
  "num_add (Fin a) (Fin b) = Fin (a + b)"
| "num_add NaN b = NaN"
| "num_add a NaN = NaN"
| "num_add PosInf NegInf = NaN"
| "num_add NegInf PosInf = NaN"
| "num_add PosInf b = PosInf"
| "num_add a PosInf = PosInf"
| "num_add NegInf b = NegInf"
| "num_add a NegInf = NegInf"

text \<open>An infinity times the finite factor \<open>a\<close>.\<close>

definition scale_inf :: "real \<Rightarrow> num \<Rightarrow> num" where
  "scale_inf a i = (if a = 0 then NaN else if 0 < a then i else num_neg i)"

fun num_mul :: "num \<Rightarrow> num \<Rightarrow> num" where
  "num_mul (Fin a) (Fin b) = Fin (a * b)"
| "num_mul NaN b = NaN"
| "num_mul a NaN = NaN"
| "num_mul (Fin a) i = scale_inf a i"
| "num_mul i (Fin b) = scale_inf b i"
| "num_mul PosInf PosInf = PosInf"
| "num_mul NegInf NegInf = PosInf"
| "num_mul PosInf NegInf = NegInf"
| "num_mul NegInf PosInf = NegInf"

fun num_div :: "num \<Rightarrow> num \<Rightarrow> num" where
  "num_div (Fin a) (Fin b) =
     (if b \<noteq> 0 then Fin (a / b)
      else if a = 0 then NaN else if 0 < a then PosInf else NegInf)"
| "num_div NaN b = NaN"
| "num_div a NaN = NaN"
| "num_div (Fin a) i = Fin 0"
| "num_div PosInf (Fin b) = (if 0 \<le> b then PosInf else NegInf)"
| "num_div NegInf (Fin b) = (if 0 \<le> b then NegInf else PosInf)"
| "num_div a b = NaN"

text \<open>\<^verbatim>\<open>Math.round\<close>, \<^verbatim>\<open>Math.floor\<close> and the remainder operator \<^verbatim>\<open>%\<close>, whose result has
  the sign of the dividend.\<close>

fun num_round :: "num \<Rightarrow> num" where
  "num_round (Fin a) = Fin (real_of_int (round a))"
| "num_round a = a"

fun num_floor :: "num \<Rightarrow> num" where
  "num_floor (Fin a) = Fin (real_of_int \<lfloor>a\<rfloor>)"
| "num_floor a = a"

definition truncReal :: "real \<Rightarrow> int" where
  "truncReal a = (if 0 \<le> a then \<lfloor>a\<rfloor> else \<lceil>a\<rceil>)"

fun num_mod :: "num \<Rightarrow> num \<Rightarrow> num" where
  "num_mod (Fin a) (Fin b) =
     (if b = 0 then NaN else Fin (a - b * real_of_int (truncReal (a / b))))"
| "num_mod NaN b = NaN"
| "num_mod a NaN = NaN"
| "num_mod (Fin a) i = Fin a"
| "num_mod a b = NaN"

text \<open>\<^verbatim>\<open>snapToGrid\<close> as the layout engine evaluates it; on finite numbers with a non-zero
  grid it is \<^const>\<open>snapToGrid\<close>.\<close>

definition snapToGrid_num :: "num \<Rightarrow> num \<Rightarrow> num" where
  "snapToGrid_num v gridSize = num_mul (num_round (num_div v gridSize)) gridSize"

text \<open>Template literals print a layer or column number; the engine formats no finite
  number that is not an integer. An integer below \<open>10\<^sup>2\<^sup>1\<close> in magnitude prints in
  decimal. From \<open>10\<^sup>2\<^sup>1\<close> on it prints in exponent notation: its digits without the
  trailing zeros, a point after the first digit when there are more, and the exponent.\<close>

fun showNat :: "nat \<Rightarrow> string" where
  "showNat n =
     (if n < 10 then [''0123456789'' ! n]
      else showNat (n div 10) @ [''0123456789'' ! (n mod 10)])"

definition showExponential :: "nat \<Rightarrow> string" where
  "showExponential n =
     (let digits = showNat n;
          mantissa = rev (dropWhile (\<lambda>c. c = CHR ''0'') (rev digits))
      in (case mantissa of
            [] \<Rightarrow> []
          | d # ds \<Rightarrow> (if ds = [] then [d] else d # ''.'' @ ds))
         @ ''e+'' @ showNat (length digits - 1))"

definition showInt :: "int \<Rightarrow> string" where
  "showInt i =
     (if i < 0 then ''-'' else [])
     @ (if \<bar>i\<bar> < 10 ^ 21 then showNat (nat \<bar>i\<bar>) else showExponential (nat \<bar>i\<bar>))"

fun showNum :: "num \<Rightarrow> string" where
  "showNum (Fin a) = showInt \<lfloor>a\<rfloor>"
| "showNum PosInf = ''Infinity''"
| "showNum NegInf = ''-Infinity''"
| "showNum NaN = ''NaN''"

section \<open>The layout engine (engine/layout.ts)\<close>

datatype LayoutMode = flowGrid | byTags | byTypes | byCausality | byTime

text \<open>
  A field of \<^verbatim>\<open>Partial<LayoutOptions>\<close> is absent, or present with the value \<^verbatim>\<open>undefined\<close>
  (which the optional field admits), or present with a number, which may be \<^verbatim>\<open>NaN\<close> or
  infinite.
\<close>

datatype OptionalNumber = Absent | Undefined | Given num

record PartialLayoutOptions =
  gridSize_opt :: OptionalNumber
  columnSpacing_opt :: OptionalNumber
  rowSpacing_opt :: OptionalNumber
  margin_opt :: OptionalNumber
  maxPerColumn_opt :: OptionalNumber

text \<open>
  The resolved options. At run time a field of \<^verbatim>\<open>Required<LayoutOptions>\<close> may hold
  \<^verbatim>\<open>undefined\<close> (see \<open>ensureOptions\<close>). The engine reads an option only as an operand of
  \<^verbatim>\<open>+\<close>, \<^verbatim>\<open>*\<close>, \<^verbatim>\<open>/\<close> and \<^verbatim>\<open>%\<close>, which convert \<^verbatim>\<open>undefined\<close> to \<^verbatim>\<open>NaN\<close>, so the record holds
  each option as the number it is read as.
\<close>

record LayoutOptions =
  gridSize :: num
  columnSpacing :: num
  rowSpacing :: num
  margin :: num
  maxPerColumn :: num

definition DEFAULT_LAYOUT_OPTIONS :: LayoutOptions where
  "DEFAULT_LAYOUT_OPTIONS =
     \<lparr>gridSize = Fin 8, columnSpacing = Fin 240, rowSpacing = Fin 160, margin = Fin 120,
      maxPerColumn = Fin 8\<rparr>"

definition DIRECTIONAL_EDGE_TYPES :: "EdgeType set" where
  "DIRECTIONAL_EDGE_TYPES = {CAUSES, SUPPORTS, EXTENDS, PART_OF, DEPENDS_ON}"

definition ORDERED_NODE_KINDS :: "NodeKind list" where
  "ORDERED_NODE_KINDS = [NOTE, IDEA, TASK, TAG]"

text \<open>The string value of a member of the enum \<^verbatim>\<open>NodeKind\<close>.\<close>

fun kindName :: "NodeKind \<Rightarrow> string" where
  "kindName NOTE = ''note''"
| "kindName IDEA = ''idea''"
| "kindName TASK = ''task''"
| "kindName TAG = ''tag''"

text \<open>The spread \<^verbatim>\<open>{...DEFAULT_LAYOUT_OPTIONS, ...options}\<close> copies every property that
  \<^verbatim>\<open>options\<close> has over the default, also one whose value is \<^verbatim>\<open>undefined\<close>; only an absent
  property leaves the default in place.\<close>

definition spreadOver :: "num \<Rightarrow> OptionalNumber \<Rightarrow> num" where
  "spreadOver base field =
     (case field of Absent \<Rightarrow> base | Undefined \<Rightarrow> NaN | Given v \<Rightarrow> v)"

definition ensureOptions :: "PartialLayoutOptions option \<Rightarrow> LayoutOptions" where
  "ensureOptions options =
     (case options of
        None \<Rightarrow> DEFAULT_LAYOUT_OPTIONS
      | Some p \<Rightarrow>
          \<lparr>gridSize = spreadOver (gridSize DEFAULT_LAYOUT_OPTIONS) (gridSize_opt p),
           columnSpacing = spreadOver (columnSpacing DEFAULT_LAYOUT_OPTIONS) (columnSpacing_opt p),
           rowSpacing = spreadOver (rowSpacing DEFAULT_LAYOUT_OPTIONS) (rowSpacing_opt p),
           margin = spreadOver (margin DEFAULT_LAYOUT_OPTIONS) (margin_opt p),
           maxPerColumn = spreadOver (maxPerColumn DEFAULT_LAYOUT_OPTIONS) (maxPerColumn_opt p)\<rparr>)"

subsection \<open>buildLayers\<close>

text \<open>\<^verbatim>\<open>indegree\<close> and \<^verbatim>\<open>adjacency\<close> are maps in insertion order; \<^verbatim>\<open>indegree.get(k) || 0\<close>
  reads a missing key as \<open>0\<close>.\<close>

definition getOr0 :: "(NodeId \<times> int) list \<Rightarrow> NodeId \<Rightarrow> int" where
  "getOr0 indegree k = (case map_of indegree k of None \<Rightarrow> 0 | Some n \<Rightarrow> n)"

definition neighborsOf :: "(NodeId \<times> NodeId list) list \<Rightarrow> NodeId \<Rightarrow> NodeId list" where
  "neighborsOf adjacency k = (case map_of adjacency k of None \<Rightarrow> [] | Some ns \<Rightarrow> ns)"

definition initNode ::
  "Node \<Rightarrow> (NodeId \<times> int) list \<times> (NodeId \<times> NodeId list) list
     \<Rightarrow> (NodeId \<times> int) list \<times> (NodeId \<times> NodeId list) list" where
  "initNode node ia =
     (AList.update (node_id node) 0 (fst ia), AList.update (node_id node) [] (snd ia))"

text \<open>One edge: a directional edge is appended to the adjacency list of its source when
  the source is a node, and counts towards the indegree of its target in any case.\<close>

definition addEdge ::
  "Edge \<Rightarrow> (NodeId \<times> int) list \<times> (NodeId \<times> NodeId list) list
     \<Rightarrow> (NodeId \<times> int) list \<times> (NodeId \<times> NodeId list) list" where
  "addEdge edge ia =
     (if edge_type edge \<notin> DIRECTIONAL_EDGE_TYPES then ia
      else
        (AList.update (edge_targetId edge) (getOr0 (fst ia) (edge_targetId edge) + 1) (fst ia),
         case map_of (snd ia) (edge_sourceId edge) of
           None \<Rightarrow> snd ia
         | Some neighbors \<Rightarrow>
             AList.update (edge_sourceId edge) (neighbors @ [edge_targetId edge]) (snd ia)))"

text \<open>The state of the \<^verbatim>\<open>while\<close> loop: the queue, the indegrees and the layers.\<close>

type_synonym LayerState =
  "(NodeId \<times> nat) list \<times> (NodeId \<times> int) list \<times> (NodeId \<rightharpoonup> nat)"

text \<open>One successor of the dequeued node, whose layer is \<open>layer\<close>.\<close>

definition visitNeighbor :: "nat \<Rightarrow> NodeId \<Rightarrow> LayerState \<Rightarrow> LayerState" where
  "visitNeighbor layer neighborId st =
     (case st of (queue, indegree, layers) \<Rightarrow>
        (let nextIndegree = getOr0 indegree neighborId - 1;
             indegree' = AList.update neighborId nextIndegree indegree;
             nextLayer = layer + 1
         in if nextIndegree \<le> 0
            then (queue @ [(neighborId, nextLayer)], indegree', layers)
            else (queue, indegree',
                  layers(neighborId \<mapsto>
                    max (case layers neighborId of None \<Rightarrow> 0 | Some l \<Rightarrow> l) nextLayer))))"

text \<open>One round of the loop with \<open>current\<close> taken off the queue, whose rest is \<open>rest\<close>.\<close>

definition dequeue ::
  "(NodeId \<times> NodeId list) list \<Rightarrow> NodeId \<times> nat \<Rightarrow> LayerState \<Rightarrow> LayerState" where
  "dequeue adjacency current st =
     (case st of (rest, indegree, layers) \<Rightarrow>
        (if (case layers (fst current) of
               None \<Rightarrow> False
             | Some existingLayer \<Rightarrow> existingLayer \<ge> snd current)
         then (rest, indegree, layers)
         else fold (visitNeighbor (snd current)) (neighborsOf adjacency (fst current))
                (rest, indegree, layers(fst current \<mapsto> snd current))))"

text \<open>The loop runs until the queue is empty. From a state that the code does not
  reach it may run forever (a self-loop with a negative indegree), so it is a partial
  function; that it returns on the states \<open>buildLayers\<close> starts it from is proved below.\<close>

partial_function (option) layerLoop ::
  "(NodeId \<times> NodeId list) list \<Rightarrow> LayerState \<Rightarrow> (NodeId \<rightharpoonup> nat) option" where
  "layerLoop adjacency st =
     (case st of (queue, indegree, layers) \<Rightarrow>
        (case queue of
           [] \<Rightarrow> Some layers
         | current # rest \<Rightarrow>
             layerLoop adjacency (dequeue adjacency current (rest, indegree, layers))))"

definition fillLayer :: "Node \<Rightarrow> (NodeId \<rightharpoonup> nat) \<Rightarrow> (NodeId \<rightharpoonup> nat)" where
  "fillLayer node layers =
     (case layers (node_id node) of None \<Rightarrow> layers(node_id node \<mapsto> 0) | Some l \<Rightarrow> layers)"

definition seedQueue :: "(NodeId \<times> int) list \<Rightarrow> (NodeId \<times> nat) list" where
  "seedQueue indegree = map (\<lambda>kv. (fst kv, 0)) (filter (\<lambda>kv. snd kv = 0) indegree)"

definition buildLayers :: "Node list \<Rightarrow> Edge list \<Rightarrow> (NodeId \<rightharpoonup> nat) option" where
  "buildLayers nodes edges =
     (let ia = fold addEdge edges (fold initNode nodes ([], []))
      in case layerLoop (snd ia) (seedQueue (fst ia), fst ia, Map.empty) of
           None \<Rightarrow> None
         | Some layers \<Rightarrow> Some (fold fillLayer nodes layers))"

subsection \<open>Placing groups in columns\<close>

text \<open>\<^verbatim>\<open>groups\<close> and \<^verbatim>\<open>layers\<close> are instances of \<^verbatim>\<open>Map\<close>; \<^verbatim>\<open>positions\<close> is a plain object,
  here the map of its own properties (what \<^verbatim>\<open>Object.entries\<close> lists).\<close>

record LayoutComputation =
  positions :: "NodeId \<rightharpoonup> num Position"
  groups :: "string \<rightharpoonup> NodeId list"
  layers :: "NodeId \<rightharpoonup> num"

text \<open>The assignment \<^verbatim>\<open>positions[node.id] = { x, y }\<close> on a plain object creates or
  overwrites the own property of that name, except for the name \<^verbatim>\<open>__proto__\<close>: it is
  an accessor of \<^verbatim>\<open>Object.prototype\<close>, whose setter makes the assigned object the
  prototype of \<^verbatim>\<open>positions\<close> and creates no own property.\<close>

definition assignProperty :: "string \<Rightarrow> 'v \<Rightarrow> (string \<rightharpoonup> 'v) \<Rightarrow> (string \<rightharpoonup> 'v)" where
  "assignProperty name v obj = (if name = ''__proto__'' then obj else obj(name \<mapsto> v))"

text \<open>The idiom \<^verbatim>\<open>if (!m.has(k)) m.set(k, []); m.get(k)!.push(v)\<close> on a map in insertion
  order: a new key goes to the end, an existing key keeps its place.\<close>

definition appendTo :: "'k \<Rightarrow> 'v \<Rightarrow> ('k \<times> 'v list) list \<Rightarrow> ('k \<times> 'v list) list" where
  "appendTo k v m = AList.update k ((case map_of m k of None \<Rightarrow> [] | Some vs \<Rightarrow> vs) @ [v]) m"

text \<open>\<^verbatim>\<open>forEach\<close> with the index of the element as second argument of the callback.\<close>

definition forEachIndexed :: "('a \<Rightarrow> nat \<Rightarrow> 's \<Rightarrow> 's) \<Rightarrow> 'a list \<Rightarrow> 's \<Rightarrow> 's" where
  "forEachIndexed f xs s = fold (\<lambda>ix. f (snd ix) (fst ix)) (enumerate 0 xs) s"

definition emptyLayout :: LayoutComputation where
  "emptyLayout = \<lparr>positions = Map.empty, groups = Map.empty, layers = Map.empty\<rparr>"

text \<open>\<^verbatim>\<open>groups.get(key) || []\<close>, then \<^verbatim>\<open>push\<close> and \<^verbatim>\<open>groups.set\<close>.\<close>

definition pushGroup :: "string \<Rightarrow> NodeId \<Rightarrow> (string \<rightharpoonup> NodeId list) \<Rightarrow> (string \<rightharpoonup> NodeId list)" where
  "pushGroup key k gs = gs(key \<mapsto> (case gs key of None \<Rightarrow> [] | Some existing \<Rightarrow> existing) @ [k])"

text \<open>A coordinate: \<^verbatim>\<open>snapToGrid(options.margin + i * spacing, options.gridSize)\<close>.\<close>

definition gridCoordinate :: "LayoutOptions \<Rightarrow> num \<Rightarrow> num \<Rightarrow> num" where
  "gridCoordinate options i spacing =
     snapToGrid_num (num_add (margin options) (num_mul i spacing)) (gridSize options)"

text \<open>The comparator \<^verbatim>\<open>(a, b) => a.position.y - b.position.y\<close> orders by the vertical
  coordinate; \<^verbatim>\<open>Array.prototype.sort\<close> is stable, as \<^const>\<open>sort_key\<close> is.\<close>

definition sortByY :: "Node list \<Rightarrow> Node list" where
  "sortByY ns = sort_key (\<lambda>n. yc (node_position n)) ns"

definition assignNode ::
  "LayoutOptions \<Rightarrow> string \<Rightarrow> nat \<Rightarrow> num \<Rightarrow> Node \<Rightarrow> nat \<Rightarrow> LayoutComputation
     \<Rightarrow> LayoutComputation" where
  "assignNode options groupId columnIndex x node index lc =
     lc\<lparr>positions := assignProperty (node_id node)
            \<lparr>xc = x, yc = gridCoordinate options (Fin (real index)) (rowSpacing options)\<rparr>
            (positions lc),
        layers := (layers lc)(node_id node \<mapsto> Fin (real columnIndex)),
        groups := pushGroup groupId (node_id node) (groups lc)\<rparr>"

definition assignGroup ::
  "LayoutOptions \<Rightarrow> string \<times> Node list \<Rightarrow> nat \<Rightarrow> LayoutComputation \<Rightarrow> LayoutComputation" where
  "assignGroup options g columnIndex lc =
     forEachIndexed
       (assignNode options (fst g) columnIndex
          (gridCoordinate options (Fin (real columnIndex)) (columnSpacing options)))
       (sortByY (snd g)) lc"

definition assignPositionsFromGroups ::
  "(string \<times> Node list) list \<Rightarrow> LayoutOptions \<Rightarrow> LayoutComputation" where
  "assignPositionsFromGroups groupedNodes options =
     forEachIndexed (assignGroup options) groupedNodes emptyLayout"

subsection \<open>The flow layout\<close>

text \<open>\<^verbatim>\<open>grouped\<close> is a map from layer to nodes in insertion order; a node is appended to
  the list of its layer (\<^verbatim>\<open>layers.get(node.id) ?? 0\<close>), which is created on first use.\<close>

definition groupByLayer ::
  "(NodeId \<rightharpoonup> nat) \<Rightarrow> Node \<Rightarrow> (nat \<times> Node list) list \<Rightarrow> (nat \<times> Node list) list" where
  "groupByLayer layerMap node grouped =
     appendTo (case layerMap (node_id node) of None \<Rightarrow> 0 | Some l \<Rightarrow> l) node grouped"

definition flowNode ::
  "LayoutOptions \<Rightarrow> nat \<Rightarrow> num \<Rightarrow> Node \<Rightarrow> nat \<Rightarrow> LayoutComputation \<Rightarrow> LayoutComputation" where
  "flowNode options layer x node index lc =
     lc\<lparr>positions := assignProperty (node_id node)
            \<lparr>xc = x, yc = gridCoordinate options (Fin (real index)) (rowSpacing options)\<rparr>
            (positions lc),
        groups := pushGroup (''layer:'' @ showNat layer) (node_id node) (groups lc)\<rparr>"

definition flowColumn ::
  "LayoutOptions \<Rightarrow> nat \<times> Node list \<Rightarrow> nat \<Rightarrow> LayoutComputation \<Rightarrow> LayoutComputation" where
  "flowColumn options column columnIndex lc =
     forEachIndexed
       (flowNode options (fst column)
          (gridCoordinate options (Fin (real columnIndex)) (columnSpacing options)))
       (sortByY (snd column)) lc"

text \<open>The result carries the layer map of \<open>buildLayers\<close> as it is. The function has no
  result where \<open>buildLayers\<close> has none.\<close>

definition computeFlowGridLayout ::
  "Node list \<Rightarrow> Edge list \<Rightarrow> LayoutOptions \<Rightarrow> LayoutComputation option" where
  "computeFlowGridLayout nodes edges options =
     (if nodes = [] then Some emptyLayout
      else case buildLayers nodes edges of
        None \<Rightarrow> None
      | Some layerMap \<Rightarrow>
          (let grouped = fold (groupByLayer layerMap) nodes [];
               sortedLayers = sort_key fst grouped;
               placed = forEachIndexed (flowColumn options) sortedLayers emptyLayout
           in Some (placed\<lparr>layers :=
                      (\<lambda>k. case layerMap k of None \<Rightarrow> None | Some l \<Rightarrow> Some (Fin (real l)))\<rparr>)))"

subsection \<open>Grouping by tag, by kind and by time\<close>

text \<open>\<^verbatim>\<open>Array.prototype.sort\<close> with a comparator: a stable sort, here by insertion. The
  order \<open>le a b\<close> stands for \<^verbatim>\<open>compare(a, b) <= 0\<close>.\<close>

fun insertBy :: "('a \<Rightarrow> 'a \<Rightarrow> bool) \<Rightarrow> 'a \<Rightarrow> 'a list \<Rightarrow> 'a list" where
  "insertBy le a [] = [a]"
| "insertBy le a (b # bs) = (if le a b then a # b # bs else b # insertBy le a bs)"

definition sortBy :: "('a \<Rightarrow> 'a \<Rightarrow> bool) \<Rightarrow> 'a list \<Rightarrow> 'a list" where
  "sortBy le as = foldr (insertBy le) as []"

definition tagNode ::
  "Node \<Rightarrow> (string \<times> Node list) list \<times> Node list \<Rightarrow> (string \<times> Node list) list \<times> Node list" where
  "tagNode node tu =
     (case node_tags node of
        [] \<Rightarrow> (fst tu, snd tu @ [node])
      | key # others \<Rightarrow> (appendTo key node (fst tu), snd tu))"

text \<open>The columns of the layout by tags, in order. The collation of the host,
  \<^verbatim>\<open>String.prototype.localeCompare\<close>, is the parameter \<open>localeLe\<close>:
  \<open>localeLe a b\<close> stands for \<^verbatim>\<open>a.localeCompare(b) <= 0\<close>.\<close>

definition tagEntries ::
  "(string \<Rightarrow> string \<Rightarrow> bool) \<Rightarrow> Node list \<Rightarrow> (string \<times> Node list) list" where
  "tagEntries localeLe nodes =
     (let tu = fold tagNode nodes ([], []);
          entries = sortBy (\<lambda>a b. localeLe (fst a) (fst b)) (fst tu)
      in if snd tu \<noteq> [] then entries @ [(''untagged'', snd tu)] else entries)"

definition layoutByTags ::
  "(string \<Rightarrow> string \<Rightarrow> bool) \<Rightarrow> Node list \<Rightarrow> LayoutOptions \<Rightarrow> LayoutComputation" where
  "layoutByTags localeLe nodes options =
     assignPositionsFromGroups (tagEntries localeLe nodes) options"

definition kindNode :: "Node \<Rightarrow> (NodeKind \<times> Node list) list \<Rightarrow> (NodeKind \<times> Node list) list" where
  "kindNode node typeGroups =
     appendTo (node_kind node) node typeGroups"

definition typeEntries :: "Node list \<Rightarrow> (string \<times> Node list) list" where
  "typeEntries nodes =
     (let typeGroups = fold kindNode nodes []
      in map (\<lambda>kind. (kindName kind,
                      case map_of typeGroups kind of None \<Rightarrow> [] | Some ns \<Rightarrow> ns))
           (filter (\<lambda>kind. map_of typeGroups kind \<noteq> None) ORDERED_NODE_KINDS))"

definition layoutByTypes :: "Node list \<Rightarrow> LayoutOptions \<Rightarrow> LayoutComputation" where
  "layoutByTypes nodes options = assignPositionsFromGroups (typeEntries nodes) options"

definition timeNode ::
  "LayoutOptions \<Rightarrow> Node \<Rightarrow> nat \<Rightarrow> LayoutComputation \<Rightarrow> LayoutComputation" where
  "timeNode options node index lc =
     (let perColumn = maxPerColumn options;
          column = num_floor (num_div (Fin (real index)) perColumn);
          row = num_mod (Fin (real index)) perColumn
      in lc\<lparr>positions := assignProperty (node_id node)
               \<lparr>xc = gridCoordinate options column (columnSpacing options),
                yc = gridCoordinate options row (rowSpacing options)\<rparr>
               (positions lc),
            layers := (layers lc)(node_id node \<mapsto> column),
            groups := pushGroup (''time:'' @ showNum column) (node_id node) (groups lc)\<rparr>)"

definition layoutByTime :: "Node list \<Rightarrow> LayoutOptions \<Rightarrow> LayoutComputation" where
  "layoutByTime nodes options =
     (if nodes = [] then emptyLayout
      else forEachIndexed (timeNode options) (sort_key node_createdAt nodes) emptyLayout)"

subsection \<open>computeLayout\<close>

definition computeLayout ::
  "(string \<Rightarrow> string \<Rightarrow> bool) \<Rightarrow> LayoutMode \<Rightarrow> Node list \<Rightarrow> Edge list
     \<Rightarrow> PartialLayoutOptions option \<Rightarrow> LayoutComputation option" where
  "computeLayout localeLe mode nodes edges options =
     (let resolvedOptions = ensureOptions options
      in case mode of
           byTags \<Rightarrow> Some (layoutByTags localeLe nodes resolvedOptions)
         | byTypes \<Rightarrow> Some (layoutByTypes nodes resolvedOptions)
         | byTime \<Rightarrow> Some (layoutByTime nodes resolvedOptions)
         | byCausality \<Rightarrow> computeFlowGridLayout nodes edges resolvedOptions
         | flowGrid \<Rightarrow> computeFlowGridLayout nodes edges resolvedOptions)"

section \<open>Constants and sample values\<close>

text \<open>\<^verbatim>\<open>DEFAULT_PHYSICS\<close> of \<^verbatim>\<open>types/core.ts\<close>.\<close>

definition DEFAULT_PHYSICS :: PhysicsConstraints where
  "DEFAULT_PHYSICS =
     \<lparr>maxOffset = 32, returnDuration = 500, enablePhysics = True, gridSnap = 8,
      repulsionRadius = 64,
      forces = \<lparr>spring = 0.1, repulsion = 100, frameMagnet = 0.05\<rparr>\<rparr>"

text \<open>Sample values for the worked examples: an unlocked note without tags or frame at a
  committed position, and a simulation entry at rest on a point.\<close>

definition plainNode :: "NodeId \<Rightarrow> real \<Rightarrow> real \<Rightarrow> Node" where
  "plainNode k px py =
     \<lparr>node_id = k, node_tags = [], node_createdAt = 0, node_kind = NOTE,
      node_position = \<lparr>xc = px, yc = py\<rparr>, node_locked = False, node_frameId = None\<rparr>"

text \<open>An edge of a given relation kind, and a node with given tags at a vertical
  coordinate.\<close>

definition edge :: "NodeId \<Rightarrow> NodeId \<Rightarrow> EdgeType \<Rightarrow> Edge" where
  "edge a b t = \<lparr>edge_sourceId = a, edge_targetId = b, edge_type = t\<rparr>"

definition taggedNode :: "NodeId \<Rightarrow> string list \<Rightarrow> real \<Rightarrow> Node" where
  "taggedNode k ts py = (plainNode k 0 py)\<lparr>node_tags := ts\<rparr>"

text \<open>A collation for the worked examples: strings compared by character code, the
  order \<^verbatim>\<open>localeCompare\<close> gives to lower-case ASCII words.\<close>

fun codeUnitLe :: "string \<Rightarrow> string \<Rightarrow> bool" where
  "codeUnitLe [] b = True"
| "codeUnitLe (a # as) [] = False"
| "codeUnitLe (a # as) (b # bs) =
     (if a = b then codeUnitLe as bs else (of_char a :: nat) < of_char b)"

definition restingAt :: "real \<Rightarrow> real \<Rightarrow> PhysicsNodeState" where
  "restingAt px py =
     \<lparr>position = \<lparr>xc = px, yc = py\<rparr>, velocity = \<lparr>xc = 0, yc = 0\<rparr>,
      target = \<lparr>xc = px, yc = py\<rparr>\<rparr>"

section \<open>Notions used in the proofs\<close>

text \<open>A coordinate on the grid is a finite number and an integer multiple of the grid
  size; a layout is grid-aligned when both coordinates of every position are.\<close>

definition onGrid :: "real \<Rightarrow> num \<Rightarrow> bool" where
  "onGrid g v = (\<exists>i::int. v = Fin (real_of_int i * g))"

definition gridAligned :: "real \<Rightarrow> LayoutComputation \<Rightarrow> bool" where
  "gridAligned g lc = (\<forall>k p. positions lc k = Some p \<longrightarrow> onGrid g (xc p) \<and> onGrid g (yc p))"

text \<open>Options whose grid size is the finite non-zero number \<open>g\<close> and whose margin and
  spacings are finite numbers.\<close>

definition finiteOptions :: "real \<Rightarrow> LayoutOptions \<Rightarrow> bool" where
  "finiteOptions g options =
     (g \<noteq> 0 \<and> gridSize options = Fin g \<and> (\<exists>m. margin options = Fin m)
      \<and> (\<exists>c. columnSpacing options = Fin c) \<and> (\<exists>r. rowSpacing options = Fin r))"

text \<open>For the loop of \<open>buildLayers\<close>: the number of entries \<open>x\<close> in the adjacency lists of
  the selected sources; the work left for the sources not yet processed; and the
  invariant that ties the indegrees \<open>d\<close> to the set \<open>P\<close> of processed ids and the queue
  \<open>Q\<close> (an id is queued once all its incoming entries are consumed, so at most once).\<close>

definition edgeCount :: "(NodeId \<times> NodeId list) list \<Rightarrow> (NodeId \<Rightarrow> bool) \<Rightarrow> NodeId \<Rightarrow> nat" where
  "edgeCount adj sel x =
     sum_list (map (\<lambda>pn. if sel (fst pn) then count_list (snd pn) x else 0) adj)"

definition pendingWork :: "(NodeId \<times> NodeId list) list \<Rightarrow> NodeId set \<Rightarrow> nat" where
  "pendingWork adj P =
     sum_list (map (\<lambda>pn. if fst pn \<in> P then 0 else 1 + length (snd pn)) adj)"

definition layerInv ::
  "(NodeId \<times> NodeId list) list \<Rightarrow> (NodeId \<Rightarrow> int) \<Rightarrow> NodeId set
     \<Rightarrow> (NodeId \<times> nat) list \<Rightarrow> (NodeId \<times> int) list \<Rightarrow> bool" where
  "layerInv adj d0 P Q d =
     (distinct (map fst adj) \<and> distinct (map fst Q) \<and> fst ` set Q \<inter> P = {}
      \<and> (\<forall>x. getOr0 d x = d0 x - int (edgeCount adj (\<lambda>p. p \<in> P) x))
      \<and> (\<forall>x. int (edgeCount adj (\<lambda>p. True) x) \<le> d0 x)
      \<and> (\<forall>x \<in> P \<union> fst ` set Q. edgeCount adj (\<lambda>p. p \<notin> P) x = 0))"

definition initInv :: "(NodeId \<times> int) list \<times> (NodeId \<times> NodeId list) list \<Rightarrow> bool" where
  "initInv ia = (distinct (map fst (fst ia)) \<and> distinct (map fst (snd ia))
                 \<and> (\<forall>x. int (edgeCount (snd ia) (\<lambda>p. True) x) \<le> getOr0 (fst ia) x))"

text \<open>For the partition of the nodes into groups: the pairs of a group key and a member
  of that group; a layout places exactly the ids \<open>S\<close> when these, but for the id
  \<^verbatim>\<open>__proto__\<close>, are the ids with a position, they are the ids with a group, no id is in
  two groups, and no group lists an id twice. \<open>getOrNil\<close> reads a missing key of a map of lists as the empty list.\<close>

definition memberships :: "(string \<rightharpoonup> NodeId list) \<Rightarrow> (string \<times> NodeId) set" where
  "memberships gs = {ki. \<exists>ids. gs (fst ki) = Some ids \<and> snd ki \<in> set ids}"

definition placedExactly :: "LayoutComputation \<Rightarrow> NodeId set \<Rightarrow> bool" where
  "placedExactly lc S =
     (dom (positions lc) = S - {''__proto__''} \<and> snd ` memberships (groups lc) = S
      \<and> (\<forall>k k' i. (k, i) \<in> memberships (groups lc) \<and> (k', i) \<in> memberships (groups lc)
            \<longrightarrow> k = k')
      \<and> (\<forall>k ids. groups lc k = Some ids \<longrightarrow> distinct ids))"

definition getOrNil :: "('k \<times> 'v list) list \<Rightarrow> 'k \<Rightarrow> 'v list" where
  "getOrNil m k = (case map_of m k of None \<Rightarrow> [] | Some vs \<Rightarrow> vs)"

text \<open>The first tag of a node, the key of its group in the layout by tags.\<close>

definition firstTag :: "Node \<Rightarrow> string option" where
  "firstTag n = (case node_tags n of [] \<Rightarrow> None | t # ts \<Rightarrow> Some t)"

section \<open>Target synchronisation\<close>

lemma syncEntry_other:
  "k \<noteq> fst kv \<Longrightarrow> syncEntry g kv s k = s k"
  by (simp add: syncEntry_def split: option.split)

lemma fold_syncEntry_other:
  "k \<notin> fst ` set layout \<Longrightarrow> fold (syncEntry g) layout s k = s k"
proof (induction layout arbitrary: s)
  case Nil
  show ?case by simp
next
  case (Cons kv rest)
  from Cons.prems have ne: "k \<noteq> fst kv" and out: "k \<notin> fst ` set rest"
    by auto
  have "fold (syncEntry g) (kv # rest) s k = fold (syncEntry g) rest (syncEntry g kv s) k"
    by simp
  also have "\<dots> = syncEntry g kv s k"
    using Cons.IH [OF out] .
  also have "\<dots> = s k"
    using ne by (rule syncEntry_other)
  finally show ?case .
qed

lemma fold_syncEntry_member:
  assumes "distinct (map fst layout)" and "(k, v) \<in> set layout"
  shows "fold (syncEntry g) layout s k =
           (case s k of
              Some e \<Rightarrow> Some (e\<lparr>target := snapPosition v g\<rparr>)
            | None \<Rightarrow> Some \<lparr>position = snapPosition v g, velocity = createZeroVector,
                             target = snapPosition v g\<rparr>)"
  using assms
proof (induction layout arbitrary: s)
  case Nil
  then show ?case by simp
next
  case (Cons kv rest)
  show ?case
  proof (cases "kv = (k, v)")
    case True
    from Cons.prems(1) True have "k \<notin> fst ` set rest"
      by auto
    then have "fold (syncEntry g) rest (syncEntry g kv s) k = syncEntry g kv s k"
      by (rule fold_syncEntry_other)
    moreover have "syncEntry g kv s k =
            (case s k of
               Some e \<Rightarrow> Some (e\<lparr>target := snapPosition v g\<rparr>)
             | None \<Rightarrow> Some \<lparr>position = snapPosition v g, velocity = createZeroVector,
                              target = snapPosition v g\<rparr>)"
      using True by (simp add: syncEntry_def split: option.split)
    ultimately show ?thesis
      by simp
  next
    case False
    with Cons.prems(2) have mem: "(k, v) \<in> set rest"
      by auto
    from Cons.prems(1) have dist: "distinct (map fst rest)" and out: "fst kv \<notin> fst ` set rest"
      by auto
    from mem have "k \<in> fst ` set rest"
      by (rule rev_image_eqI) simp
    with out have ne: "k \<noteq> fst kv"
      by blast
    have "fold (syncEntry g) rest (syncEntry g kv s) k =
            (case syncEntry g kv s k of
               Some e \<Rightarrow> Some (e\<lparr>target := snapPosition v g\<rparr>)
             | None \<Rightarrow> Some \<lparr>position = snapPosition v g, velocity = createZeroVector,
                              target = snapPosition v g\<rparr>)"
      using Cons.IH [OF dist mem] .
    then show ?thesis
      using syncEntry_other [OF ne] by simp
  qed
qed

text \<open>
  Claim C7. A call to \<^verbatim>\<open>syncPhysicsTargets\<close> re-aims existing entries and creates missing
  ones, and touches nothing else: for an incoming id with an entry, the entry afterwards
  is the old one with only its target replaced by the grid-snapped incoming value
  (position and velocity are the old ones); for an incoming id without an entry, the new
  entry has position and target equal to the grid-snapped incoming value and velocity
  \<open>(0, 0)\<close>; the entry of every id that is not incoming is unchanged (absent ids stay
  absent). The incoming layout is an object, so its ids are distinct.
\<close>

theorem syncPhysicsTargets_frame:
  assumes "distinct (map fst layout)"
  shows "(\<forall>k v e. (k, v) \<in> set layout \<and> state k = Some e \<longrightarrow>
            syncPhysicsTargets state layout g k = Some (e\<lparr>target := snapPosition v g\<rparr>)
            \<and> position (the (syncPhysicsTargets state layout g k)) = position e
            \<and> velocity (the (syncPhysicsTargets state layout g k)) = velocity e)
       \<and> (\<forall>k v. (k, v) \<in> set layout \<and> state k = None \<longrightarrow>
            syncPhysicsTargets state layout g k =
              Some \<lparr>position = snapPosition v g, velocity = \<lparr>xc = 0, yc = 0\<rparr>,
                    target = snapPosition v g\<rparr>)
       \<and> (\<forall>k. k \<notin> fst ` set layout \<longrightarrow> syncPhysicsTargets state layout g k = state k)"
proof (intro conjI allI impI)
  fix k v e
  assume h: "(k, v) \<in> set layout \<and> state k = Some e"
  then show "syncPhysicsTargets state layout g k = Some (e\<lparr>target := snapPosition v g\<rparr>)"
    using fold_syncEntry_member [OF assms, of k v g state]
    by (simp add: syncPhysicsTargets_def)
  then show "position (the (syncPhysicsTargets state layout g k)) = position e"
    and "velocity (the (syncPhysicsTargets state layout g k)) = velocity e"
    by simp_all
next
  fix k v
  assume "(k, v) \<in> set layout \<and> state k = None"
  then show "syncPhysicsTargets state layout g k =
               Some \<lparr>position = snapPosition v g, velocity = \<lparr>xc = 0, yc = 0\<rparr>,
                     target = snapPosition v g\<rparr>"
    using fold_syncEntry_member [OF assms, of k v g state]
    by (simp add: syncPhysicsTargets_def createZeroVector_def)
next
  fix k
  assume "k \<notin> fst ` set layout"
  then show "syncPhysicsTargets state layout g k = state k"
    by (simp add: syncPhysicsTargets_def fold_syncEntry_other)
qed

theorem syncPhysicsTargets_frame_witness:
  "distinct (map fst [(''a'', \<lparr>xc = 11, yc = -3\<rparr>), (''b'', \<lparr>xc = 20, yc = 8::real\<rparr>)])
   \<and> syncPhysicsTargets
         [''a'' \<mapsto> \<lparr>position = \<lparr>xc = 1, yc = 2\<rparr>, velocity = \<lparr>xc = 3, yc = 4\<rparr>,
                     target = \<lparr>xc = 0, yc = 0\<rparr>\<rparr>,
          ''c'' \<mapsto> restingAt 40 40]
         [(''a'', \<lparr>xc = 11, yc = -3\<rparr>), (''b'', \<lparr>xc = 20, yc = 8\<rparr>)] 8 ''a''
       = Some \<lparr>position = \<lparr>xc = 1, yc = 2\<rparr>, velocity = \<lparr>xc = 3, yc = 4\<rparr>,
               target = \<lparr>xc = 8, yc = 0\<rparr>\<rparr>
   \<and> syncPhysicsTargets
         [''a'' \<mapsto> \<lparr>position = \<lparr>xc = 1, yc = 2\<rparr>, velocity = \<lparr>xc = 3, yc = 4\<rparr>,
                     target = \<lparr>xc = 0, yc = 0\<rparr>\<rparr>,
          ''c'' \<mapsto> restingAt 40 40]
         [(''a'', \<lparr>xc = 11, yc = -3\<rparr>), (''b'', \<lparr>xc = 20, yc = 8\<rparr>)] 8 ''b''
       = Some \<lparr>position = \<lparr>xc = 24, yc = 8\<rparr>, velocity = \<lparr>xc = 0, yc = 0\<rparr>,
               target = \<lparr>xc = 24, yc = 8\<rparr>\<rparr>
   \<and> syncPhysicsTargets
         [''a'' \<mapsto> \<lparr>position = \<lparr>xc = 1, yc = 2\<rparr>, velocity = \<lparr>xc = 3, yc = 4\<rparr>,
                     target = \<lparr>xc = 0, yc = 0\<rparr>\<rparr>,
          ''c'' \<mapsto> restingAt 40 40]
         [(''a'', \<lparr>xc = 11, yc = -3\<rparr>), (''b'', \<lparr>xc = 20, yc = 8\<rparr>)] 8 ''c''
       = Some (restingAt 40 40)"
  using syncPhysicsTargets_frame
          [of "[(''a'', \<lparr>xc = 11, yc = -3\<rparr>), (''b'', \<lparr>xc = 20, yc = 8::real\<rparr>)]"
              "[''a'' \<mapsto> \<lparr>position = \<lparr>xc = 1, yc = 2\<rparr>, velocity = \<lparr>xc = 3, yc = 4\<rparr>,
                          target = \<lparr>xc = 0, yc = 0\<rparr>\<rparr>,
                ''c'' \<mapsto> restingAt 40 40]" 8]
  by (simp add: snapPosition_def snapToGrid_def round_def)

section \<open>Properties of the simulation step\<close>

subsection \<open>Which ids have an entry\<close>

lemma ensureStateForNode_dom:
  "dom (ensureStateForNode s n g) = insert (node_id n) (dom s)"
  by (auto simp: ensureStateForNode_def split: option.splits)

lemma fold_ensure_dom:
  "dom (fold (\<lambda>node s. ensureStateForNode s node g) ns s) = dom s \<union> node_id ` set ns"
  by (induction ns arbitrary: s) (auto simp: ensureStateForNode_dom)

lemma freezeEntries_dom: "dom (freezeEntries s g) = dom s"
  by (auto simp: freezeEntries_def split: option.splits)

lemma resnapTarget_dom: "dom (resnapTarget g n s) = dom s"
  by (auto simp: resnapTarget_def split: option.splits)

lemma fold_resnapTarget_dom: "dom (fold (resnapTarget g) ns s) = dom s"
  by (induction ns arbitrary: s) (simp_all add: resnapTarget_dom)

lemma stepNode_dom: "dom (fst (stepNode c dt dr fc all n sh)) = dom (fst sh)"
  by (auto simp: stepNode_def Let_def split: option.splits if_splits)

lemma fold_stepNode_dom: "dom (fst (fold (stepNode c dt dr fc all) ns sh)) = dom (fst sh)"
  by (induction ns arbitrary: sh) (simp_all add: stepNode_dom)

subsection \<open>Snapping and the offset bound of one node\<close>

lemma snapToGrid_idem:
  assumes "g \<noteq> 0"
  shows "snapToGrid (snapToGrid v g) g = snapToGrid v g"
  using assms by (simp add: snapToGrid_def)

lemma snapPosition_idem:
  "g \<noteq> 0 \<Longrightarrow> snapPosition (snapPosition p g) g = snapPosition p g"
  by (simp add: snapPosition_def snapToGrid_idem)

lemma distance_self: "distance p p = 0"
  by (simp add: distance_def distanceSquared_def)

lemma distance_offset:
  "distance \<lparr>xc = px, yc = py\<rparr> t =
     sqrt ((px - xc t) * (px - xc t) + (py - yc t) * (py - yc t))"
  by (simp add: distance_def distanceSquared_def Let_def)

lemma bounce_distance:
  assumes "0 \<le> M" and "M < sqrt (ox * ox + oy * oy)"
  shows "distance \<lparr>xc = xc t + ox * (M / sqrt (ox * ox + oy * oy)),
                   yc = yc t + oy * (M / sqrt (ox * ox + oy * oy))\<rparr> t = M"
proof -
  define d where "d = sqrt (ox * ox + oy * oy)"
  have dpos: "0 < d" using assms unfolding d_def by linarith
  have nonneg: "0 \<le> ox * ox + oy * oy" by simp
  have dsq: "d * d = ox * ox + oy * oy"
    unfolding d_def using nonneg by simp
  have "distanceSquared \<lparr>xc = xc t + ox * (M / d), yc = yc t + oy * (M / d)\<rparr> t
          = (M / d) * (M / d) * (ox * ox + oy * oy)"
  proof -
    have "distanceSquared \<lparr>xc = xc t + ox * r, yc = yc t + oy * r\<rparr> t = r * r * (ox * ox + oy * oy)" for r
      by (simp add: distanceSquared_def Let_def algebra_simps)
    then show ?thesis .
  qed
  also have "\<dots> = (M / d) * (M / d) * (d * d)"
    by (simp only: dsq)
  also have "\<dots> = M * M"
    using dpos by simp
  finally have "distance \<lparr>xc = xc t + ox * (M / d), yc = yc t + oy * (M / d)\<rparr> t = sqrt (M * M)"
    by (simp add: distance_def)
  then show ?thesis
    using assms(1) by (simp add: d_def)
qed

lemma integrate_bounded:
  assumes M: "0 \<le> maxOffset c"
    and grid: "snapPosition (target e) (gridSnap c) = target e"
  shows "target (fst (integrate c dt e force)) = target e
       \<and> distance (position (fst (integrate c dt e force))) (target e) \<le> maxOffset c"
proof -
  define vx where "vx = (xc (velocity e) + fst force * dt) * 0.82"
  define vy where "vy = (yc (velocity e) + snd force * dt) * 0.82"
  define ox where "ox = xc (position e) + vx * dt - xc (target e)"
  define oy where "oy = yc (position e) + vy * dt - yc (target e)"
  define d where "d = sqrt (ox * ox + oy * oy)"
  define pos' where "pos' = (if d > maxOffset c
                  then \<lparr>xc = xc (target e) + ox * (maxOffset c / (if d = 0 then 1 else d)),
                        yc = yc (target e) + oy * (maxOffset c / (if d = 0 then 1 else d))\<rparr>
                  else \<lparr>xc = xc (position e) + vx * dt, yc = yc (position e) + vy * dt\<rparr>)"
  have cases: "fst (integrate c dt e force) = e\<lparr>position := snapPosition (target e) (gridSnap c), velocity := createZeroVector\<rparr>
     \<or> (\<exists>v. fst (integrate c dt e force) = e\<lparr>position := pos', velocity := v\<rparr>)"
    unfolding integrate_def Let_def pos'_def d_def ox_def oy_def vx_def vy_def
    by (simp only: fst_conv split: if_split) blast
  have pos'_bound: "distance pos' (target e) \<le> maxOffset c"
  proof (cases "d > maxOffset c")
    case True
    then have "d \<noteq> 0" using M by simp
    with True have "pos' = \<lparr>xc = xc (target e) + ox * (maxOffset c / sqrt (ox * ox + oy * oy)),
                        yc = yc (target e) + oy * (maxOffset c / sqrt (ox * ox + oy * oy))\<rparr>"
      by (simp add: pos'_def d_def)
    moreover have "maxOffset c < sqrt (ox * ox + oy * oy)" using True by (simp add: d_def)
    ultimately show ?thesis using bounce_distance [OF M, of ox oy "target e"] by simp
  next
    case False
    then have "pos' = \<lparr>xc = xc (position e) + vx * dt, yc = yc (position e) + vy * dt\<rparr>"
      by (simp add: pos'_def)
    then have "distance pos' (target e) = d"
      by (simp add: distance_offset d_def ox_def oy_def)
    with False show ?thesis by simp
  qed
  from cases show ?thesis
  proof
    assume "fst (integrate c dt e force) = e\<lparr>position := snapPosition (target e) (gridSnap c), velocity := createZeroVector\<rparr>"
    then show ?thesis using grid M by (simp add: distance_self)
  next
    assume "\<exists>v. fst (integrate c dt e force) = e\<lparr>position := pos', velocity := v\<rparr>"
    then show ?thesis using pos'_bound by auto
  qed
qed


lemma stepNode_other:
  "k \<noteq> node_id n \<Longrightarrow> fst (stepNode c dt dr fc all n sh) k = fst sh k"
  by (simp add: stepNode_def Let_def split: option.split)

lemma integrate_target: "target (fst (integrate c dt e force)) = target e"
  by (simp add: integrate_def Let_def)

lemma stepNode_target:
  "map_option target (fst (stepNode c dt dr fc all n sh) k) = map_option target (fst sh k)"
  by (simp add: stepNode_def Let_def integrate_target split: option.split)

lemma fold_stepNode_target:
  "map_option target (fst (fold (stepNode c dt dr fc all) ns sh) k) = map_option target (fst sh k)"
  by (induction ns arbitrary: sh) (simp_all add: stepNode_target)

lemma stepNode_bounded:
  assumes e: "fst sh (node_id n) = Some e"
    and M: "0 \<le> maxOffset c"
    and grid: "snapPosition (target e) (gridSnap c) = target e"
  shows "\<exists>e'. fst (stepNode c dt dr fc all n sh) (node_id n) = Some e'
           \<and> target e' = target e
           \<and> distance (position e') (target e') \<le> maxOffset c"
proof (cases "node_locked n \<or> node_id n \<in> dr")
  case True
  with e have "fst (stepNode c dt dr fc all n sh) (node_id n)
      = Some (e\<lparr>position := snapPosition (target e) (gridSnap c), velocity := createZeroVector\<rparr>)"
    by (simp add: stepNode_def)
  then show ?thesis using grid M by (simp add: distance_self)
next
  case False
  with e have "fst (stepNode c dt dr fc all n sh) (node_id n)
      = Some (fst (integrate c dt e (accumulateForce c fc all (fst sh) n e)))"
    by (simp add: stepNode_def Let_def)
  then show ?thesis using integrate_bounded [OF M grid] by simp
qed

lemma fold_stepNode_bounded:
  assumes M: "0 \<le> maxOffset c"
    and k: "k \<in> node_id ` set ns"
    and e: "fst sh k = Some e"
    and grid: "snapPosition (target e) (gridSnap c) = target e"
  shows "\<exists>e'. fst (fold (stepNode c dt dr fc all) ns sh) k = Some e'
           \<and> target e' = target e
           \<and> distance (position e') (target e') \<le> maxOffset c"
  using k
proof (induction ns rule: rev_induct)
  case Nil
  then show ?case by simp
next
  case (snoc n ns)
  let ?mid = "fold (stepNode c dt dr fc all) ns sh"
  have tgt: "map_option target (fst ?mid k) = Some (target e)"
    using fold_stepNode_target [of c dt dr fc all ns sh k] e by simp
  then obtain em where em: "fst ?mid k = Some em" and emt: "target em = target e"
    by auto
  show ?case
  proof (cases "node_id n = k")
    case True
    from stepNode_bounded [of ?mid n em c dt dr fc all] em emt M grid True
    show ?thesis by simp
  next
    case False
    with snoc.prems have "k \<in> node_id ` set ns" by auto
    from snoc.IH [OF this] stepNode_other [of k n c dt dr fc all ?mid] False
    show ?thesis by simp
  qed
qed


subsection \<open>The loops over the node list\<close>

lemma resnapTarget_other: "k \<noteq> node_id n \<Longrightarrow> resnapTarget g n s k = s k"
  by (simp add: resnapTarget_def split: option.split)

lemma resnapTarget_self:
  "resnapTarget g n s (node_id n) = map_option (\<lambda>e. e\<lparr>target := snapPosition (target e) g\<rparr>) (s (node_id n))"
  by (simp add: resnapTarget_def split: option.split)

lemma fold_resnapTarget:
  assumes "g \<noteq> 0"
  shows "fold (resnapTarget g) ns s k =
           (if k \<in> node_id ` set ns
            then map_option (\<lambda>e. e\<lparr>target := snapPosition (target e) g\<rparr>) (s k)
            else s k)"
proof (induction ns rule: rev_induct)
  case Nil
  show ?case by simp
next
  case (snoc n ns)
  show ?case
  proof (cases "k = node_id n")
    case True
    then show ?thesis
      using snoc.IH
      by (cases "s (node_id n)") (simp_all add: resnapTarget_self snapPosition_idem [OF assms])
  next
    case False
    then show ?thesis
      using snoc.IH by (simp add: resnapTarget_other)
  qed
qed

lemma ensureStateForNode_old:
  "s k = Some e \<Longrightarrow> ensureStateForNode s n g k = Some e"
  by (cases "k = node_id n") (auto simp: ensureStateForNode_def split: option.split)

lemma fold_ensure_old:
  "s k = Some e \<Longrightarrow> fold (\<lambda>node s. ensureStateForNode s node g) ns s k = Some e"
  by (induction ns arbitrary: s) (simp_all add: ensureStateForNode_old)

lemma fold_ensure_present:
  assumes "k \<in> node_id ` set ns"
  shows "\<exists>e. fold (\<lambda>node s. ensureStateForNode s node g) ns s k = Some e"
proof -
  have "k \<in> dom (fold (\<lambda>node s. ensureStateForNode s node g) ns s)"
    using assms by (simp add: fold_ensure_dom)
  then show ?thesis by auto
qed

lemma stepNode_pinned:
  assumes "fst sh (node_id n) = Some e" and "node_locked n \<or> node_id n \<in> dr"
  shows "fst (stepNode c dt dr fc all n sh) (node_id n) =
           Some \<lparr>position = snapPosition (target e) (gridSnap c),
                 velocity = createZeroVector, target = target e\<rparr>"
  using assms by (simp add: stepNode_def)

lemma fold_stepNode_dragged:
  assumes k: "k \<in> node_id ` set ns"
    and dr: "k \<in> dr"
    and e: "fst sh k = Some e"
  shows "fst (fold (stepNode c dt dr fc all) ns sh) k =
           Some \<lparr>position = snapPosition (target e) (gridSnap c),
                 velocity = createZeroVector, target = target e\<rparr>"
  using k
proof (induction ns rule: rev_induct)
  case Nil
  then show ?case by simp
next
  case (snoc n ns)
  let ?mid = "fold (stepNode c dt dr fc all) ns sh"
  have "map_option target (fst ?mid k) = Some (target e)"
    using fold_stepNode_target [of c dt dr fc all ns sh k] e by simp
  then obtain em where em: "fst ?mid k = Some em" and emt: "target em = target e"
    by auto
  show ?case
  proof (cases "node_id n = k")
    case True
    with em dr have "fst (stepNode c dt dr fc all n ?mid) (node_id n) =
           Some \<lparr>position = snapPosition (target em) (gridSnap c),
                 velocity = createZeroVector, target = target em\<rparr>"
      by (intro stepNode_pinned) simp_all
    with True emt show ?thesis by simp
  next
    case False
    with snoc.prems have "k \<in> node_id ` set ns" by auto
    from snoc.IH [OF this] stepNode_other [of k n c dt dr fc all ?mid] False
    show ?thesis by simp
  qed
qed


subsection \<open>Evaluation of a step on sample values\<close>

lemmas step_eval = stepPhysics_def Let_def ensureStateForNode_def resnapTarget_def stepNode_def
  integrate_def accumulateForce_def repel_def snapPosition_def snapToGrid_def createZeroVector_def
  clamp_def distanceSquared_def freezeEntries_def round_def plainNode_def restingAt_def
  DEFAULT_PHYSICS_def distance_def FRAME_FORCE_MULTIPLIER_def

subsection \<open>The offset bound\<close>

text \<open>
  Claim C1, as stated, is that after every call to \<^verbatim>\<open>stepPhysics\<close> with physics enabled a
  node that is neither locked nor dragged lies within \<^verbatim>\<open>maxOffset\<close> of its target, up to
  a small epsilon. The constraints are not validated, and a negative \<^verbatim>\<open>maxOffset\<close> breaks
  the statement: with \<^verbatim>\<open>maxOffset = -8\<close> a node at rest on its target stays there, at
  distance \<open>0\<close>, which is more than \<open>-8 + 1\<close>.
\<close>

theorem stepPhysics_negative_maxOffset_unbounded:
  "enablePhysics (DEFAULT_PHYSICS\<lparr>maxOffset := -8\<rparr>)
   \<and> \<not> node_locked (plainNode ''a'' 0 0)
   \<and> fst (stepPhysics [''a'' \<mapsto> restingAt 0 0] [plainNode ''a'' 0 0]
             (DEFAULT_PHYSICS\<lparr>maxOffset := -8\<rparr>) 16 None None) ''a'' = Some (restingAt 0 0)
   \<and> \<not> distance (position (restingAt 0 0)) (target (restingAt 0 0))
         \<le> maxOffset (DEFAULT_PHYSICS\<lparr>maxOffset := -8\<rparr>) + 1"
  by (simp add: step_eval)

text \<open>
  Claim C1, amended. Let all numbers be finite and the arithmetic exact, as it is on the
  reals of this development. For every call to \<^verbatim>\<open>stepPhysics\<close> with physics enabled, a
  non-negative \<^verbatim>\<open>maxOffset\<close> and a non-zero grid snap, every node of the passed list (in
  particular every node that is neither locked nor dragged) has an entry after the call
  whose position is within \<^verbatim>\<open>maxOffset\<close> of its target, up to an epsilon \<open>eps\<close>.

  On the reals every \<open>eps \<ge> 0\<close> will do, also \<open>0\<close>. The epsilon of the claim is kept
  because the code computes in IEEE doubles: there the rescaling onto the boundary circle
  rounds, so the distance can exceed \<^verbatim>\<open>maxOffset\<close> by a rounding error, and force weights
  that overflow yield \<^verbatim>\<open>NaN\<close> positions. Neither is within the reach of this model.
\<close>

theorem stepPhysics_offset_bounded:
  assumes "enablePhysics c" and "0 \<le> maxOffset c" and "gridSnap c \<noteq> 0"
    and "n \<in> set nodes" and "0 \<le> eps"
  shows "\<exists>e. fst (stepPhysics state nodes c deltaMs draggingIds frames) (node_id n) = Some e
            \<and> distance (position e) (target e) \<le> maxOffset c + eps"
proof -
  let ?g = "gridSnap c"
  let ?k = "node_id n"
  let ?ensured = "fold (\<lambda>node s. ensureStateForNode s node ?g) nodes state"
  let ?snapped = "fold (resnapTarget ?g) nodes ?ensured"
  from assms(4) have k: "?k \<in> node_id ` set nodes" by simp
  then obtain e0 where e0: "?ensured ?k = Some e0"
    using fold_ensure_present by blast
  define e1 where "e1 = e0\<lparr>target := snapPosition (target e0) ?g\<rparr>"
  have e1: "?snapped ?k = Some e1"
    using fold_resnapTarget [OF assms(3), of nodes ?ensured ?k] k e0 by (simp add: e1_def)
  have grid: "snapPosition (target e1) ?g = target e1"
    by (simp add: e1_def snapPosition_idem [OF assms(3)])
  have ne: "nodes \<noteq> []" using assms(4) by auto
  obtain dt dr fc where step:
    "stepPhysics state nodes c deltaMs draggingIds frames = fold (stepNode c dt dr fc nodes) nodes (?snapped, False)"
    using ne assms(1) by (simp add: stepPhysics_def Let_def)
  from fold_stepNode_bounded [OF assms(2) k, of "(?snapped, False)" e1 dt dr fc nodes] e1 grid
  have "\<exists>e. fst (stepPhysics state nodes c deltaMs draggingIds frames) (node_id n) = Some e
            \<and> distance (position e) (target e) \<le> maxOffset c"
    unfolding step by auto
  then obtain e where e: "fst (stepPhysics state nodes c deltaMs draggingIds frames) (node_id n) = Some e"
    and d: "distance (position e) (target e) \<le> maxOffset c"
    by (elim exE conjE)
  from d assms(5) have "distance (position e) (target e) \<le> maxOffset c + eps"
    by linarith
  with e show ?thesis
    by (intro exI [of _ e] conjI)
qed

theorem stepPhysics_offset_bounded_witness:
  "enablePhysics DEFAULT_PHYSICS \<and> 0 \<le> maxOffset DEFAULT_PHYSICS
   \<and> gridSnap DEFAULT_PHYSICS \<noteq> 0
   \<and> plainNode ''a'' 96 0 \<in> set [plainNode ''a'' 96 0, plainNode ''b'' 0 0]
   \<and> (0::real) \<le> 0
   \<and> (\<exists>e. fst (stepPhysics
                 [''a'' \<mapsto> \<lparr>position = \<lparr>xc = 96, yc = 0\<rparr>, velocity = \<lparr>xc = 5, yc = 5\<rparr>,
                             target = \<lparr>xc = 0, yc = 0\<rparr>\<rparr>]
                 [plainNode ''a'' 96 0, plainNode ''b'' 0 0] DEFAULT_PHYSICS 16 None None) ''a''
               = Some e
            \<and> distance (position e) (target e) \<le> 32)"
  using stepPhysics_offset_bounded
          [of DEFAULT_PHYSICS "plainNode ''a'' 96 0" "[plainNode ''a'' 96 0, plainNode ''b'' 0 0]"
              0
              "[''a'' \<mapsto> \<lparr>position = \<lparr>xc = 96, yc = 0\<rparr>, velocity = \<lparr>xc = 5, yc = 5\<rparr>,
                          target = \<lparr>xc = 0, yc = 0\<rparr>\<rparr>]" 16 None None]
  by (simp add: DEFAULT_PHYSICS_def plainNode_def)

subsection \<open>A dragged node\<close>

text \<open>
  Claim C4, as stated, is that a dragged node whose entry is pinned to the drag point
  \<open>P\<close> has simulation position exactly \<open>P\<close> after the step, also for \<open>P\<close> off the grid.
  The step snaps the target and puts the position on the snapped target: pinned to
  \<open>(3, 5)\<close> on a grid of \<open>8\<close>, the node is at \<open>(0, 8)\<close> after the step.
\<close>

theorem stepPhysics_dragged_off_grid:
  "fst (stepPhysics [''a'' \<mapsto> restingAt 3 5] [plainNode ''a'' 0 0]
          DEFAULT_PHYSICS 16 (Some {''a''}) None) ''a''
     = Some \<lparr>position = \<lparr>xc = 0, yc = 8\<rparr>, velocity = \<lparr>xc = 0, yc = 0\<rparr>,
             target = \<lparr>xc = 0, yc = 8\<rparr>\<rparr>
   \<and> target (restingAt 3 5) = \<lparr>xc = 3, yc = 5\<rparr>
   \<and> \<lparr>xc = 0, yc = 8\<rparr> \<noteq> \<lparr>xc = 3, yc = 5::real\<rparr>"
  by (simp add: step_eval)

text \<open>
  Claim C4, amended. For every call to \<^verbatim>\<open>stepPhysics\<close> (physics enabled or not, grid snap
  non-zero) in which a node of the list has its id in \<^verbatim>\<open>draggingIds\<close> and its entry has
  target \<open>P\<close>, the entry's position after the call is \<open>P\<close> snapped to the grid, with zero
  velocity; it is exactly \<open>P\<close> when \<open>P\<close> is on the grid.
\<close>

theorem stepPhysics_dragged_position:
  assumes "n \<in> set nodes" and "node_id n \<in> ids" and "state (node_id n) = Some e"
    and "gridSnap c \<noteq> 0"
  shows "\<exists>e'. fst (stepPhysics state nodes c deltaMs (Some ids) frames) (node_id n) = Some e'
            \<and> position e' = snapPosition (target e) (gridSnap c)
            \<and> velocity e' = \<lparr>xc = 0, yc = 0\<rparr>
            \<and> (snapPosition (target e) (gridSnap c) = target e \<longrightarrow> position e' = target e)"
proof -
  let ?g = "gridSnap c"
  let ?k = "node_id n"
  let ?ensured = "fold (\<lambda>node s. ensureStateForNode s node ?g) nodes state"
  let ?snapped = "fold (resnapTarget ?g) nodes ?ensured"
  from assms(1) have k: "?k \<in> node_id ` set nodes" by simp
  have e0: "?ensured ?k = Some e"
    using assms(3) by (rule fold_ensure_old)
  have ne: "nodes \<noteq> []" using assms(1) by auto
  show ?thesis
  proof (cases "enablePhysics c")
    case False
    then have "fst (stepPhysics state nodes c deltaMs (Some ids) frames) = freezeEntries ?ensured ?g"
      using ne by (simp add: stepPhysics_def Let_def)
    then show ?thesis using e0 by (simp add: freezeEntries_def createZeroVector_def)
  next
    case True
    have e1: "?snapped ?k = Some (e\<lparr>target := snapPosition (target e) ?g\<rparr>)"
      using fold_resnapTarget [OF assms(4), of nodes ?ensured ?k] k e0 by simp
    obtain dt fc where step:
      "stepPhysics state nodes c deltaMs (Some ids) frames = fold (stepNode c dt ids fc nodes) nodes (?snapped, False)"
      using ne True by (simp add: stepPhysics_def Let_def)
    from fold_stepNode_dragged [OF k assms(2), of "(?snapped, False)" _ c dt fc nodes] e1
    show ?thesis unfolding step by (simp add: snapPosition_idem [OF assms(4)] createZeroVector_def)
  qed
qed

theorem stepPhysics_dragged_position_witness:
  "plainNode ''a'' 0 0 \<in> set [plainNode ''a'' 0 0, plainNode ''b'' 64 0]
   \<and> ''a'' \<in> {''a''}
   \<and> [''a'' \<mapsto> restingAt 19 16] ''a'' = Some (restingAt 19 16)
   \<and> gridSnap DEFAULT_PHYSICS \<noteq> 0
   \<and> snapPosition \<lparr>xc = 19, yc = 16\<rparr> 8 = \<lparr>xc = 16, yc = 16\<rparr>
   \<and> (\<exists>e'. fst (stepPhysics [''a'' \<mapsto> restingAt 19 16]
                  [plainNode ''a'' 0 0, plainNode ''b'' 64 0] DEFAULT_PHYSICS 16
                  (Some {''a''}) None) ''a'' = Some e'
             \<and> position e' = \<lparr>xc = 16, yc = 16\<rparr> \<and> velocity e' = \<lparr>xc = 0, yc = 0\<rparr>)"
  using stepPhysics_dragged_position
          [of "plainNode ''a'' 0 0" "[plainNode ''a'' 0 0, plainNode ''b'' 64 0]" "{''a''}"
              "[''a'' \<mapsto> restingAt 19 16]" "restingAt 19 16" DEFAULT_PHYSICS 16 None]
  by (simp add: DEFAULT_PHYSICS_def plainNode_def restingAt_def snapPosition_def snapToGrid_def
        round_def)

subsection \<open>Entries are never removed\<close>

text \<open>
  Claim C5, as stated, is that after a call to \<^verbatim>\<open>stepPhysics\<close> every id of the state map is
  the id of a node of the passed list. No code path deletes an entry: an entry \<open>z\<close> is
  still there after a step over the single node \<open>a\<close>.
\<close>

theorem stepPhysics_keeps_stale_entry:
  "fst (stepPhysics [''z'' \<mapsto> restingAt 0 0] [plainNode ''a'' 0 0] DEFAULT_PHYSICS 16 None None)
       ''z''
     = Some (restingAt 0 0)
   \<and> ''z'' \<notin> set (map node_id [plainNode ''a'' 0 0])"
  by (simp add: step_eval)

text \<open>
  Claim C5, amended. A call to \<^verbatim>\<open>stepPhysics\<close> removes no entry and adds one for each node
  of the list that had none: the ids of the state map after the call are the ids before
  the call together with the ids of the passed nodes.
\<close>

theorem stepPhysics_dom:
  "dom (fst (stepPhysics state nodes c deltaMs draggingIds frames)) =
     dom state \<union> node_id ` set nodes"
  by (simp add: stepPhysics_def Let_def fold_ensure_dom freezeEntries_dom fold_stepNode_dom
        fold_resnapTarget_dom)

subsection \<open>Disabled physics\<close>

text \<open>
  Claim C6, as stated, ends with "position == target exactly" after a step with physics
  disabled. The step sets the position to the snapped target and leaves the target as
  it is: an entry with target \<open>(3, 5)\<close> on a grid of \<open>8\<close> has position \<open>(0, 8)\<close> after the
  step, which is not its target.
\<close>

theorem stepPhysics_disabled_off_grid_target:
  "fst (stepPhysics [''a'' \<mapsto> restingAt 3 5] [plainNode ''a'' 0 0]
          (DEFAULT_PHYSICS\<lparr>enablePhysics := False\<rparr>) 16 None None) ''a''
     = Some \<lparr>position = \<lparr>xc = 0, yc = 8\<rparr>, velocity = \<lparr>xc = 0, yc = 0\<rparr>,
             target = \<lparr>xc = 3, yc = 5\<rparr>\<rparr>
   \<and> \<lparr>xc = 0, yc = 8\<rparr> \<noteq> \<lparr>xc = 3, yc = 5::real\<rparr>"
  by (simp add: step_eval)

text \<open>
  Claim C6, amended. For every non-empty node list and a non-zero grid snap (on finite
  numbers), a call to \<^verbatim>\<open>stepPhysics\<close> with physics
  disabled returns false and leaves every entry (those that existed, with their targets
  unchanged, and those it creates) with position equal to its grid-snapped target and
  velocity \<open>(0, 0)\<close>; the position equals the target exactly for every entry whose target
  is on the grid. A second disabled call with the same constraints, for any node list,
  returns false and leaves each of these entries as it is.
\<close>

theorem stepPhysics_disabled:
  assumes "nodes \<noteq> []" and "\<not> enablePhysics c" and "gridSnap c \<noteq> 0"
  shows "snd (stepPhysics state nodes c deltaMs draggingIds frames) = False
       \<and> (\<forall>k e. state k = Some e \<longrightarrow>
            fst (stepPhysics state nodes c deltaMs draggingIds frames) k =
              Some \<lparr>position = snapPosition (target e) (gridSnap c),
                    velocity = \<lparr>xc = 0, yc = 0\<rparr>, target = target e\<rparr>)
       \<and> (\<forall>k e'. fst (stepPhysics state nodes c deltaMs draggingIds frames) k = Some e' \<longrightarrow>
            position e' = snapPosition (target e') (gridSnap c)
            \<and> velocity e' = \<lparr>xc = 0, yc = 0\<rparr>
            \<and> (snapPosition (target e') (gridSnap c) = target e' \<longrightarrow> position e' = target e')
            \<and> (\<forall>nodes2 deltaMs2 draggingIds2 frames2.
                  fst (stepPhysics (fst (stepPhysics state nodes c deltaMs draggingIds frames))
                         nodes2 c deltaMs2 draggingIds2 frames2) k = Some e'
                  \<and> snd (stepPhysics (fst (stepPhysics state nodes c deltaMs draggingIds frames))
                         nodes2 c deltaMs2 draggingIds2 frames2) = False))"
proof -
  let ?g = "gridSnap c"
  let ?ensured = "fold (\<lambda>node s. ensureStateForNode s node ?g) nodes state"
  let ?r = "stepPhysics state nodes c deltaMs draggingIds frames"
  have r: "?r = (freezeEntries ?ensured ?g, False)"
    using assms(1,2) by (simp add: stepPhysics_def Let_def)
  have frozen: "position e' = snapPosition (target e') ?g \<and> velocity e' = createZeroVector"
    if "fst ?r k = Some e'" for k e'
    using that unfolding r by (auto simp: freezeEntries_def split: option.splits)
  have again: "fst (stepPhysics (fst ?r) nodes2 c d2 dr2 fr2) k = Some e'
             \<and> snd (stepPhysics (fst ?r) nodes2 c d2 dr2 fr2) = False"
    if e': "fst ?r k = Some e'" for k e' nodes2 d2 dr2 fr2
  proof (cases "nodes2 = []")
    case True
    then show ?thesis using e' by (simp add: stepPhysics_def)
  next
    case False
    let ?ensured2 = "fold (\<lambda>node s. ensureStateForNode s node ?g) nodes2 (fst ?r)"
    have "?ensured2 k = Some e'"
      using e' by (rule fold_ensure_old)
    then have "freezeEntries ?ensured2 ?g k
                 = Some (e'\<lparr>position := snapPosition (target e') ?g, velocity := createZeroVector\<rparr>)"
      by (simp add: freezeEntries_def)
    also have "\<dots> = Some e'"
      using frozen [OF e'] by simp
    finally show ?thesis
      using False assms(2) by (simp add: stepPhysics_def Let_def)
  qed
  have old: "fst ?r k = Some \<lparr>position = snapPosition (target e) ?g,
                    velocity = \<lparr>xc = 0, yc = 0\<rparr>, target = target e\<rparr>"
    if "state k = Some e" for k e
  proof -
    have "?ensured k = Some e" using that by (rule fold_ensure_old)
    then show ?thesis unfolding r by (simp add: freezeEntries_def createZeroVector_def)
  qed
  show ?thesis
  proof (intro conjI allI impI)
    show "snd ?r = False" by (simp add: r)
  qed (use frozen again old in \<open>simp_all add: createZeroVector_def\<close>)
qed

theorem stepPhysics_disabled_witness:
  "[plainNode ''a'' 0 0, plainNode ''b'' 13 0] \<noteq> []
   \<and> \<not> enablePhysics (DEFAULT_PHYSICS\<lparr>enablePhysics := False\<rparr>)
   \<and> gridSnap (DEFAULT_PHYSICS\<lparr>enablePhysics := False\<rparr>) \<noteq> 0
   \<and> fst (stepPhysics
             [''a'' \<mapsto> \<lparr>position = \<lparr>xc = 1, yc = 2\<rparr>, velocity = \<lparr>xc = 3, yc = 4\<rparr>,
                         target = \<lparr>xc = 16, yc = 8\<rparr>\<rparr>]
             [plainNode ''a'' 0 0, plainNode ''b'' 13 0]
             (DEFAULT_PHYSICS\<lparr>enablePhysics := False\<rparr>) 16 None None) ''a''
       = Some (restingAt 16 8)
   \<and> fst (stepPhysics
            (fst (stepPhysics
                    [''a'' \<mapsto> \<lparr>position = \<lparr>xc = 1, yc = 2\<rparr>, velocity = \<lparr>xc = 3, yc = 4\<rparr>,
                                target = \<lparr>xc = 16, yc = 8\<rparr>\<rparr>]
                    [plainNode ''a'' 0 0, plainNode ''b'' 13 0]
                    (DEFAULT_PHYSICS\<lparr>enablePhysics := False\<rparr>) 16 None None))
            [plainNode ''a'' 0 0, plainNode ''b'' 13 0]
            (DEFAULT_PHYSICS\<lparr>enablePhysics := False\<rparr>) 16 None None) ''a''
       = Some (restingAt 16 8)"
proof -
  let ?c = "DEFAULT_PHYSICS\<lparr>enablePhysics := False\<rparr>"
  let ?ns = "[plainNode ''a'' 0 0, plainNode ''b'' 13 0]"
  let ?e = "\<lparr>position = \<lparr>xc = 1, yc = 2\<rparr>, velocity = \<lparr>xc = 3, yc = 4\<rparr>,
             target = \<lparr>xc = 16, yc = 8::real\<rparr>\<rparr>"
  let ?s = "[''a'' \<mapsto> ?e]"
  let ?r = "stepPhysics ?s ?ns ?c 16 None None"
  have ne: "?ns \<noteq> []" and off: "\<not> enablePhysics ?c" and grid: "gridSnap ?c \<noteq> 0"
    by (simp_all add: DEFAULT_PHYSICS_def)
  note t = stepPhysics_disabled [OF ne off grid, of ?s 16 None None]
  have snap: "snapPosition \<lparr>xc = 16, yc = 8\<rparr> (gridSnap ?c) = \<lparr>xc = 16, yc = 8\<rparr>"
    by (simp add: DEFAULT_PHYSICS_def snapPosition_def snapToGrid_def round_def)
  have old: "\<forall>k e. ?s k = Some e \<longrightarrow>
               fst ?r k = Some \<lparr>position = snapPosition (target e) (gridSnap ?c),
                                 velocity = \<lparr>xc = 0, yc = 0\<rparr>, target = target e\<rparr>"
    by (rule conjunct1 [OF conjunct2 [OF t]])
  have sa: "?s ''a'' = Some ?e"
    by simp
  from old [rule_format, OF sa] have first: "fst ?r ''a'' = Some (restingAt 16 8)"
    using snap by (simp add: restingAt_def)
  have new: "\<forall>k e'. fst ?r k = Some e' \<longrightarrow>
            position e' = snapPosition (target e') (gridSnap ?c)
            \<and> velocity e' = \<lparr>xc = 0, yc = 0\<rparr>
            \<and> (snapPosition (target e') (gridSnap ?c) = target e' \<longrightarrow> position e' = target e')
            \<and> (\<forall>nodes2 deltaMs2 draggingIds2 frames2.
                  fst (stepPhysics (fst ?r) nodes2 ?c deltaMs2 draggingIds2 frames2) k = Some e'
                  \<and> snd (stepPhysics (fst ?r) nodes2 ?c deltaMs2 draggingIds2 frames2) = False)"
    by (rule conjunct2 [OF conjunct2 [OF t]])
  from new [rule_format, OF first]
  have "\<forall>nodes2 deltaMs2 draggingIds2 frames2.
                  fst (stepPhysics (fst ?r) nodes2 ?c deltaMs2 draggingIds2 frames2) ''a''
                    = Some (restingAt 16 8)
                  \<and> snd (stepPhysics (fst ?r) nodes2 ?c deltaMs2 draggingIds2 frames2) = False"
    by (elim conjE)
  from this [rule_format, of ?ns 16 None None]
  have second: "fst (stepPhysics (fst ?r) ?ns ?c 16 None None) ''a'' = Some (restingAt 16 8)"
    by (rule conjunct1)
  show ?thesis
    by (intro conjI ne off grid first second)
qed

section \<open>Properties of the layout engine\<close>

subsection \<open>Every coordinate is on the grid\<close>

lemma snapToGrid_num_Fin:
  "g \<noteq> 0 \<Longrightarrow> snapToGrid_num (Fin a) (Fin g) = Fin (snapToGrid a g)"
  by (simp add: snapToGrid_num_def snapToGrid_def)

lemma gridCoordinate_Fin:
  assumes "g \<noteq> 0" and "gridSize options = Fin g" and "margin options = Fin m"
  shows "onGrid g (gridCoordinate options (Fin i) (Fin spacing))"
  using assms
  by (auto simp: gridCoordinate_def snapToGrid_num_Fin snapToGrid_def onGrid_def)

lemma gridCoordinate_row:
  assumes "finiteOptions g options"
  shows "onGrid g (gridCoordinate options (Fin i) (rowSpacing options))"
proof -
  from assms obtain m r where a: "g \<noteq> 0" "gridSize options = Fin g" "margin options = Fin m"
    and r: "rowSpacing options = Fin r"
    unfolding finiteOptions_def by (elim conjE exE)
  from a show ?thesis
    unfolding r by (rule gridCoordinate_Fin)
qed

lemma gridCoordinate_column:
  assumes "finiteOptions g options"
  shows "onGrid g (gridCoordinate options (Fin i) (columnSpacing options))"
proof -
  from assms obtain m c where a: "g \<noteq> 0" "gridSize options = Fin g" "margin options = Fin m"
    and c: "columnSpacing options = Fin c"
    unfolding finiteOptions_def by (elim conjE exE)
  from a show ?thesis
    unfolding c by (rule gridCoordinate_Fin)
qed

lemma column_of_index_Fin:
  assumes "p \<noteq> NaN" and "p \<noteq> Fin 0"
  shows "\<exists>c. num_floor (num_div (Fin i) p) = Fin c"
  using assms by (cases p) simp_all

lemma row_of_index_Fin:
  assumes "p \<noteq> NaN" and "p \<noteq> Fin 0"
  shows "\<exists>r. num_mod (Fin i) p = Fin r"
  using assms by (cases p) simp_all

lemma gridAligned_assignProperty:
  assumes "gridAligned g lc" and "onGrid g x" and "onGrid g y"
    and "positions lc' = assignProperty k \<lparr>xc = x, yc = y\<rparr> (positions lc)"
  shows "gridAligned g lc'"
  using assms by (auto simp: gridAligned_def assignProperty_def split: if_splits)

lemma snd_enumerate_mem:
  assumes "ix \<in> set (enumerate n xs)"
  shows "snd ix \<in> set xs"
proof -
  from assms have "snd ix \<in> set (map snd (enumerate n xs))"
    by (simp only: set_map) (rule imageI)
  then show ?thesis
    by (simp only: map_snd_enumerate)
qed

lemma forEachIndexed_invariant:
  fixes xs :: "'b list"
  assumes "P s" and "\<And>x i s. x \<in> set xs \<Longrightarrow> P s \<Longrightarrow> P (f x i s)"
  shows "P (forEachIndexed f xs s)"
  unfolding forEachIndexed_def
proof (rule fold_invariant [where Q = "\<lambda>ix. snd ix \<in> set xs" and P = P])
  fix ix :: "nat \<times> 'b" assume "ix \<in> set (enumerate 0 xs)"
  then show "snd ix \<in> set xs"
    by (rule snd_enumerate_mem)
next
  show "P s" by (rule assms(1))
next
  fix ix :: "nat \<times> 'b" and s assume "snd ix \<in> set xs" and "P s"
  then show "P (f (snd ix) (fst ix) s)"
    by (rule assms(2))
qed

lemma gridAligned_empty: "gridAligned g emptyLayout"
  by (simp add: gridAligned_def emptyLayout_def)

lemma gridAligned_assignNode:
  assumes "finiteOptions g options" and "onGrid g x" and "gridAligned g lc"
  shows "gridAligned g (assignNode options groupId columnIndex x node index lc)"
  using assms(3,2) gridCoordinate_row [OF assms(1)]
  by (rule gridAligned_assignProperty) (simp add: assignNode_def)

lemma gridAligned_flowNode:
  assumes "finiteOptions g options" and "onGrid g x" and "gridAligned g lc"
  shows "gridAligned g (flowNode options layer x node index lc)"
  using assms(3,2) gridCoordinate_row [OF assms(1)]
  by (rule gridAligned_assignProperty) (simp add: flowNode_def)

lemma gridAligned_timeNode:
  assumes "finiteOptions g options" and "maxPerColumn options \<noteq> NaN"
    and "maxPerColumn options \<noteq> Fin 0" and "gridAligned g lc"
  shows "gridAligned g (timeNode options node index lc)"
proof -
  from column_of_index_Fin [OF assms(2,3)]
  obtain c where c: "num_floor (num_div (Fin (real index)) (maxPerColumn options)) = Fin c" ..
  from row_of_index_Fin [OF assms(2,3)]
  obtain r where r: "num_mod (Fin (real index)) (maxPerColumn options) = Fin r" ..
  from assms(4) gridCoordinate_column [OF assms(1), of c] gridCoordinate_row [OF assms(1), of r]
  show ?thesis
    by (rule gridAligned_assignProperty) (simp add: timeNode_def Let_def c r)
qed

lemma gridAligned_assignGroup:
  assumes "finiteOptions g options" and "gridAligned g lc"
  shows "gridAligned g (assignGroup options grp columnIndex lc)"
  unfolding assignGroup_def
proof (rule forEachIndexed_invariant)
  show "gridAligned g lc" by (rule assms(2))
next
  fix x i s assume "gridAligned g s"
  then show "gridAligned g
          (assignNode options (fst grp) columnIndex
            (gridCoordinate options (Fin (real columnIndex)) (columnSpacing options)) x i s)"
    by (rule gridAligned_assignNode [OF assms(1) gridCoordinate_column [OF assms(1)]])
qed

lemma gridAligned_assignPositionsFromGroups:
  assumes "finiteOptions g options"
  shows "gridAligned g (assignPositionsFromGroups entries options)"
  unfolding assignPositionsFromGroups_def
proof (rule forEachIndexed_invariant)
  show "gridAligned g emptyLayout" by (rule gridAligned_empty)
next
  fix x i s assume "gridAligned g s"
  then show "gridAligned g (assignGroup options x i s)"
    by (rule gridAligned_assignGroup [OF assms])
qed

lemma gridAligned_layoutByTime:
  assumes "finiteOptions g options" and "maxPerColumn options \<noteq> NaN"
    and "maxPerColumn options \<noteq> Fin 0"
  shows "gridAligned g (layoutByTime nodes options)"
proof -
  have "gridAligned g (forEachIndexed (timeNode options) xs emptyLayout)" for xs
  proof (rule forEachIndexed_invariant)
    show "gridAligned g emptyLayout" by (rule gridAligned_empty)
  next
    fix x i s assume "gridAligned g s"
    then show "gridAligned g (timeNode options x i s)"
      by (rule gridAligned_timeNode [OF assms])
  qed
  then show ?thesis
    by (simp add: layoutByTime_def gridAligned_empty)
qed

lemma gridAligned_flowColumn:
  assumes "finiteOptions g options" and "gridAligned g lc"
  shows "gridAligned g (flowColumn options column columnIndex lc)"
  unfolding flowColumn_def
proof (rule forEachIndexed_invariant)
  show "gridAligned g lc" by (rule assms(2))
next
  fix x i s assume "gridAligned g s"
  then show "gridAligned g
          (flowNode options (fst column)
            (gridCoordinate options (Fin (real columnIndex)) (columnSpacing options)) x i s)"
    by (rule gridAligned_flowNode [OF assms(1) gridCoordinate_column [OF assms(1)]])
qed

lemma gridAligned_computeFlowGridLayout:
  assumes "finiteOptions g options" and "computeFlowGridLayout nodes edges options = Some r"
  shows "gridAligned g r"
proof -
  have "gridAligned g (forEachIndexed (flowColumn options) cols emptyLayout)" for cols
  proof (rule forEachIndexed_invariant)
    show "gridAligned g emptyLayout" by (rule gridAligned_empty)
  next
    fix x i s assume "gridAligned g s"
    then show "gridAligned g (flowColumn options x i s)"
      by (rule gridAligned_flowColumn [OF assms(1)])
  qed
  then have "gridAligned g
               ((forEachIndexed (flowColumn options) cols emptyLayout)\<lparr>layers := L\<rparr>)" for cols L
    by (simp add: gridAligned_def)
  with assms(2) show ?thesis
    by (auto simp: computeFlowGridLayout_def Let_def gridAligned_empty split: if_splits option.splits)
qed


subsection \<open>The loop of buildLayers returns\<close>

lemma getOr0_update: "getOr0 (AList.update k v d) x = (if x = k then v else getOr0 d x)"
  by (simp add: getOr0_def update_conv')

lemma edgeCount_split:
  "edgeCount adj (\<lambda>p. True) x = edgeCount adj (\<lambda>p. p \<in> P) x + edgeCount adj (\<lambda>p. p \<notin> P) x"
  unfolding edgeCount_def by (induction adj) auto

lemma edgeCount_absent:
  "k \<notin> fst ` set adj \<Longrightarrow> edgeCount adj (\<lambda>p. p \<in> insert k P) x = edgeCount adj (\<lambda>p. p \<in> P) x"
  unfolding edgeCount_def by (induction adj) auto

lemma neighborsOf_Cons:
  "neighborsOf (pn # adj) k = (if fst pn = k then snd pn else neighborsOf adj k)"
  by (cases pn) (simp add: neighborsOf_def)

lemma neighborsOf_absent: "k \<notin> fst ` set adj \<Longrightarrow> neighborsOf adj k = []"
  by (simp add: neighborsOf_def map_of_eq_None_iff [THEN iffD2])

lemma edgeCount_insert:
  assumes "distinct (map fst adj)" and "k \<notin> P"
  shows "edgeCount adj (\<lambda>p. p \<in> insert k P) x =
           edgeCount adj (\<lambda>p. p \<in> P) x + count_list (neighborsOf adj k) x"
  using assms(1)
proof (induction adj)
  case Nil
  show ?case by (simp add: edgeCount_def neighborsOf_def)
next
  case (Cons pn adj)
  show ?case
  proof (cases "fst pn = k")
    case True
    with Cons.prems have "k \<notin> fst ` set adj" by auto
    from edgeCount_absent [OF this, of P x] True assms(2) show ?thesis
      by (simp add: edgeCount_def neighborsOf_Cons)
  next
    case False
    with Cons show ?thesis
      by (simp add: edgeCount_def neighborsOf_Cons)
  qed
qed

lemma pendingWork_absent:
  "k \<notin> fst ` set adj \<Longrightarrow> pendingWork adj (insert k P) = pendingWork adj P"
  unfolding pendingWork_def by (induction adj) auto

lemma pendingWork_insert:
  assumes "distinct (map fst adj)" and "k \<notin> P" and "k \<in> fst ` set adj"
  shows "pendingWork adj P = pendingWork adj (insert k P) + 1 + length (neighborsOf adj k)"
  using assms(1,3)
proof (induction adj)
  case Nil
  then show ?case by simp
next
  case (Cons pn adj)
  show ?case
  proof (cases "fst pn = k")
    case True
    with Cons.prems have "k \<notin> fst ` set adj" by auto
    from pendingWork_absent [OF this, of P] True assms(2) show ?thesis
      by (simp add: pendingWork_def neighborsOf_Cons)
  next
    case False
    with Cons show ?thesis
      by (simp add: pendingWork_def neighborsOf_Cons)
  qed
qed

lemma fold_visitNeighbor:
  assumes "\<forall>x. int (count_list ns x) + int (r x) \<le> getOr0 d x"
  shows "(\<forall>x. getOr0 (fst (snd (fold (visitNeighbor l) ns (Q, d, L)))) x
                = getOr0 d x - int (count_list ns x))
       \<and> (\<exists>ps. fst (fold (visitNeighbor l) ns (Q, d, L)) = Q @ ps
              \<and> distinct (map fst ps) \<and> fst ` set ps \<subseteq> set ns
              \<and> (\<forall>x \<in> fst ` set ps. r x = 0)
              \<and> length ps \<le> length ns)"
  using assms
proof (induction ns arbitrary: Q d L)
  case Nil
  show ?case by simp
next
  case (Cons n ns)
  let ?d1 = "AList.update n (getOr0 d n - 1) d"
  have low1: "\<forall>x. int (count_list ns x) + int (r x) \<le> getOr0 ?d1 x"
  proof
    fix x
    from Cons.prems have "int (count_list (n # ns) x) + int (r x) \<le> getOr0 d x" by (rule spec)
    then show "int (count_list ns x) + int (r x) \<le> getOr0 ?d1 x"
      by (simp add: getOr0_update split: if_splits)
  qed
  from Cons.prems have lown: "int (count_list (n # ns) n) + int (r n) \<le> getOr0 d n" by (rule spec)
  show ?case
  proof (cases "getOr0 d n - 1 \<le> 0")
    case True
    with lown have dn: "getOr0 d n = 1" and cn: "count_list ns n = 0" and rn: "r n = 0"
      by simp_all
    have step: "visitNeighbor l n (Q, d, L) = (Q @ [(n, l + 1)], ?d1, L)"
      using True by (simp add: visitNeighbor_def Let_def)
    note ih = Cons.IH [OF low1, of "Q @ [(n, l + 1)]" L]
    from ih have dd: "\<forall>x. getOr0 (fst (snd (fold (visitNeighbor l) ns (Q @ [(n, l + 1)], ?d1, L)))) x
                = getOr0 ?d1 x - int (count_list ns x)"
      by (rule conjunct1)
    from ih have "\<exists>ps. fst (fold (visitNeighbor l) ns (Q @ [(n, l + 1)], ?d1, L)) = (Q @ [(n, l + 1)]) @ ps
              \<and> distinct (map fst ps) \<and> fst ` set ps \<subseteq> set ns
              \<and> (\<forall>x \<in> fst ` set ps. r x = 0)
              \<and> length ps \<le> length ns"
      by (rule conjunct2)
    then obtain ps where
      f: "fst (fold (visitNeighbor l) ns (Q @ [(n, l + 1)], ?d1, L)) = (Q @ [(n, l + 1)]) @ ps"
      and dist: "distinct (map fst ps)" and sub: "fst ` set ps \<subseteq> set ns"
      and zero: "\<forall>x \<in> fst ` set ps. r x = 0"
      and len: "length ps \<le> length ns"
      by (elim exE conjE)
    from cn have nn: "n \<notin> set ns"
      by (simp add: count_list_0_iff)
    with sub have nps: "n \<notin> fst ` set ps" by (meson subsetD)
    have "fst (fold (visitNeighbor l) (n # ns) (Q, d, L)) = Q @ ((n, l + 1) # ps)"
      using step f by simp
    moreover have "distinct (map fst ((n, l + 1) # ps))"
      using dist nps by simp
    moreover have "fst ` set ((n, l + 1) # ps) \<subseteq> set (n # ns)"
      using sub by auto
    moreover have "\<forall>x \<in> fst ` set ((n, l + 1) # ps). r x = 0"
      using zero rn by simp
    moreover have "length ((n, l + 1) # ps) \<le> length (n # ns)"
      using len by simp
    ultimately have "\<exists>ps. fst (fold (visitNeighbor l) (n # ns) (Q, d, L)) = Q @ ps
              \<and> distinct (map fst ps) \<and> fst ` set ps \<subseteq> set (n # ns)
              \<and> (\<forall>x \<in> fst ` set ps. r x = 0)
              \<and> length ps \<le> length (n # ns)"
      by (intro exI [of _ "(n, l + 1) # ps"] conjI)
    moreover have "\<forall>x. getOr0 (fst (snd (fold (visitNeighbor l) (n # ns) (Q, d, L)))) x
                = getOr0 d x - int (count_list (n # ns) x)"
      using dd step by (simp add: getOr0_update)
    ultimately show ?thesis by (intro conjI)
  next
    case False
    let ?L1 = "L(n \<mapsto> max (case L n of None \<Rightarrow> 0 | Some l \<Rightarrow> l) (l + 1))"
    have step: "visitNeighbor l n (Q, d, L) = (Q, ?d1, ?L1)"
      using False by (simp add: visitNeighbor_def Let_def)
    note ih = Cons.IH [OF low1, of Q ?L1]
    from ih have dd: "\<forall>x. getOr0 (fst (snd (fold (visitNeighbor l) ns (Q, ?d1, ?L1)))) x
                = getOr0 ?d1 x - int (count_list ns x)"
      by (rule conjunct1)
    from ih have "\<exists>ps. fst (fold (visitNeighbor l) ns (Q, ?d1, ?L1)) = Q @ ps
              \<and> distinct (map fst ps) \<and> fst ` set ps \<subseteq> set ns
              \<and> (\<forall>x \<in> fst ` set ps. r x = 0)
              \<and> length ps \<le> length ns"
      by (rule conjunct2)
    then obtain ps where
      f: "fst (fold (visitNeighbor l) ns (Q, ?d1, ?L1)) = Q @ ps"
      and dist: "distinct (map fst ps)" and sub: "fst ` set ps \<subseteq> set ns"
      and zero: "\<forall>x \<in> fst ` set ps. r x = 0"
      and len: "length ps \<le> length ns"
      by (elim exE conjE)
    have "fst (fold (visitNeighbor l) (n # ns) (Q, d, L)) = Q @ ps"
      using step f by simp
    moreover have "fst ` set ps \<subseteq> set (n # ns)"
      using sub by auto
    moreover have "length ps \<le> length (n # ns)"
      using len by simp
    ultimately have "\<exists>ps. fst (fold (visitNeighbor l) (n # ns) (Q, d, L)) = Q @ ps
              \<and> distinct (map fst ps) \<and> fst ` set ps \<subseteq> set (n # ns)
              \<and> (\<forall>x \<in> fst ` set ps. r x = 0)
              \<and> length ps \<le> length (n # ns)"
      using dist zero by (intro exI [of _ ps] conjI)
    moreover have "\<forall>x. getOr0 (fst (snd (fold (visitNeighbor l) (n # ns) (Q, d, L)))) x
                = getOr0 d x - int (count_list (n # ns) x)"
      using dd step by (simp add: getOr0_update)
    ultimately show ?thesis by (intro conjI)
  qed
qed

lemma edgeCount_outside:
  assumes "distinct (map fst adj)" and "k \<notin> P"
  shows "edgeCount adj (\<lambda>p. p \<notin> P) x =
           edgeCount adj (\<lambda>p. p \<notin> insert k P) x + count_list (neighborsOf adj k) x"
proof -
  have "edgeCount adj (\<lambda>p. p \<in> P) x + edgeCount adj (\<lambda>p. p \<notin> P) x
          = edgeCount adj (\<lambda>p. p \<in> insert k P) x + edgeCount adj (\<lambda>p. p \<notin> insert k P) x"
    using edgeCount_split [of adj x P] edgeCount_split [of adj x "insert k P"] by simp
  with edgeCount_insert [OF assms, of x] show ?thesis
    by simp
qed

lemma dequeue_step:
  assumes inv: "layerInv adj d0 P (cur # rest) d"
  shows "\<exists>P'. layerInv adj d0 P' (fst (dequeue adj cur (rest, d, L)))
                  (fst (snd (dequeue adj cur (rest, d, L))))
             \<and> length (fst (dequeue adj cur (rest, d, L))) + pendingWork adj P'
                 < length (cur # rest) + pendingWork adj P"
proof (cases "case L (fst cur) of None \<Rightarrow> False | Some existingLayer \<Rightarrow> existingLayer \<ge> snd cur")
  case True
  then have res: "dequeue adj cur (rest, d, L) = (rest, d, L)"
    by (simp add: dequeue_def)
  from inv have "layerInv adj d0 P rest d"
    by (auto simp: layerInv_def)
  then show ?thesis
    unfolding res by (intro exI [of _ P]) simp
next
  case False
  define c where "c = fst cur"
  define ns where "ns = neighborsOf adj c"
  define r where "r = edgeCount adj (\<lambda>p. p \<notin> insert c P)"
  define res where "res = fold (visitNeighbor (snd cur)) ns (rest, d, L(c \<mapsto> snd cur))"
  from False have deq: "dequeue adj cur (rest, d, L) = res"
    by (simp add: dequeue_def res_def ns_def c_def)
  from inv have dadj: "distinct (map fst adj)"
    and dQ: "distinct (map fst (cur # rest))"
    and QP: "fst ` set (cur # rest) \<inter> P = {}"
    and I1: "\<And>x. getOr0 d x = d0 x - int (edgeCount adj (\<lambda>p. p \<in> P) x)"
    and I2: "\<And>x. int (edgeCount adj (\<lambda>p. True) x) \<le> d0 x"
    by (simp_all add: layerInv_def)
  from inv have Jall: "\<forall>x \<in> P \<union> fst ` set (cur # rest). edgeCount adj (\<lambda>p. p \<notin> P) x = 0"
    unfolding layerInv_def by (elim conjE)
  have J: "edgeCount adj (\<lambda>p. p \<notin> P) x = 0" if "x \<in> P \<union> fst ` set (cur # rest)" for x
    using Jall that by (rule bspec)
  from QP have cP: "c \<notin> P"
    by (auto simp: c_def)
  have out: "edgeCount adj (\<lambda>p. p \<notin> P) x = r x + count_list ns x" for x
    unfolding r_def ns_def by (rule edgeCount_outside [OF dadj cP])
  have ins: "edgeCount adj (\<lambda>p. p \<in> insert c P) x
               = edgeCount adj (\<lambda>p. p \<in> P) x + count_list ns x" for x
    unfolding ns_def by (rule edgeCount_insert [OF dadj cP])
  have low: "\<forall>x. int (count_list ns x) + int (r x) \<le> getOr0 d x"
  proof
    fix x
    have "int (edgeCount adj (\<lambda>p. p \<in> P) x) + int (edgeCount adj (\<lambda>p. p \<notin> P) x) \<le> d0 x"
      using I2 [of x] edgeCount_split [of adj x P] by simp
    then show "int (count_list ns x) + int (r x) \<le> getOr0 d x"
      using I1 [of x] out [of x] by simp
  qed
  note v = fold_visitNeighbor [OF low, of "snd cur" rest "L(c \<mapsto> snd cur)"]
  from v have dd: "\<forall>x. getOr0 (fst (snd res)) x = getOr0 d x - int (count_list ns x)"
    unfolding res_def by (rule conjunct1)
  from v have "\<exists>ps. fst res = rest @ ps
              \<and> distinct (map fst ps) \<and> fst ` set ps \<subseteq> set ns
              \<and> (\<forall>x \<in> fst ` set ps. r x = 0)
              \<and> length ps \<le> length ns"
    unfolding res_def by (rule conjunct2)
  then obtain ps where Q': "fst res = rest @ ps"
    and dps: "distinct (map fst ps)" and sub: "fst ` set ps \<subseteq> set ns"
    and zero: "\<forall>x \<in> fst ` set ps. r x = 0"
    and len: "length ps \<le> length ns"
    by (elim exE conjE)
  have notnb: "x \<notin> set ns" if "x \<in> P \<union> fst ` set (cur # rest)" for x
  proof -
    from J [OF that] out [of x] have "count_list ns x = 0" by simp
    then show ?thesis by (simp add: count_list_0_iff)
  qed
  have fresh: "x \<notin> P \<union> fst ` set (cur # rest)" if "x \<in> fst ` set ps" for x
    using that sub notnb by blast
  have "layerInv adj d0 (insert c P) (rest @ ps) (fst (snd res))"
    unfolding layerInv_def
  proof (intro conjI allI ballI)
    show "distinct (map fst adj)" by (rule dadj)
    show "distinct (map fst (rest @ ps))"
      using dQ dps fresh by auto
    show "fst ` set (rest @ ps) \<inter> insert c P = {}"
      using QP dQ fresh by (auto simp: c_def)
    show "getOr0 (fst (snd res)) x = d0 x - int (edgeCount adj (\<lambda>p. p \<in> insert c P) x)" for x
      using dd I1 [of x] ins [of x] by simp
    show "int (edgeCount adj (\<lambda>p. True) x) \<le> d0 x" for x
      by (rule I2)
    show "edgeCount adj (\<lambda>p. p \<notin> insert c P) x = 0"
      if "x \<in> insert c P \<union> fst ` set (rest @ ps)" for x
    proof (cases "x \<in> fst ` set ps")
      case True
      with zero have "r x = 0" by (rule bspec)
      then show ?thesis by (simp only: r_def)
    next
      case False
      with that have "x \<in> P \<union> fst ` set (cur # rest)"
        by (auto simp: c_def)
      from J [OF this] out [of x] show ?thesis
        by (simp add: r_def)
    qed
  qed
  moreover have "length (rest @ ps) + pendingWork adj (insert c P)
                   < length (cur # rest) + pendingWork adj P"
  proof (cases "c \<in> fst ` set adj")
    case True
    from pendingWork_insert [OF dadj cP True] len show ?thesis
      by (simp add: ns_def)
  next
    case False
    then have "ns = []"
      unfolding ns_def by (rule neighborsOf_absent)
    with len pendingWork_absent [OF False, of P] show ?thesis
      by simp
  qed
  ultimately show ?thesis
    unfolding deq Q' [symmetric] by (intro exI [of _ "insert c P"] conjI)
qed

lemma layerLoop_returns:
  assumes "layerInv adj d0 P Q d"
  shows "\<exists>r. layerLoop adj (Q, d, L) = Some r"
  using assms
proof (induction "length Q + pendingWork adj P" arbitrary: P Q d L rule: less_induct)
  case less
  show ?case
  proof (cases Q)
    case Nil
    then show ?thesis
      by (simp add: layerLoop.simps)
  next
    case (Cons cur rest)
    obtain Q' d' L' where deq: "dequeue adj cur (rest, d, L) = (Q', d', L')"
      by (cases "dequeue adj cur (rest, d, L)") auto
    from dequeue_step [of adj d0 P cur rest d L] less.prems Cons
    obtain P' where inv': "layerInv adj d0 P' Q' d'"
      and dec: "length Q' + pendingWork adj P' < length Q + pendingWork adj P"
      unfolding deq by auto
    from less.hyps [OF dec inv', of L'] obtain r where "layerLoop adj (Q', d', L') = Some r"
      by blast
    then have "layerLoop adj (Q, d, L) = Some r"
      using Cons deq by (subst layerLoop.simps) simp
    then show ?thesis by blast
  qed
qed

lemma edgeCount_none: "edgeCount adj (\<lambda>p. False) x = 0"
  by (simp add: edgeCount_def)

lemma edgeCount_Cons:
  "edgeCount (pn # adj) sel x =
     (if sel (fst pn) then count_list (snd pn) x else 0) + edgeCount adj sel x"
  by (simp add: edgeCount_def)

lemma edgeCount_empty_lists:
  "\<forall>pn \<in> set adj. snd pn = [] \<Longrightarrow> edgeCount adj sel x = 0"
proof (induction adj)
  case Nil
  show ?case by (simp add: edgeCount_def)
next
  case (Cons pn adj)
  from Cons.prems have hd: "snd pn = []"
    by simp
  from Cons.prems have "\<forall>pn \<in> set adj. snd pn = []"
    by simp
  then have "edgeCount adj sel x = 0"
    by (rule Cons.IH)
  then show ?case
    by (simp only: edgeCount_Cons hd count_list.simps if_cancel add_0)
qed

lemma set_update_subset: "set (AList.update k v al) \<subseteq> insert (k, v) (set al)"
  by (induction al) auto

lemma update_empty_lists:
  assumes "\<forall>pn \<in> set adj. snd pn = []" and "pn \<in> set (AList.update k [] adj)"
  shows "snd pn = []"
proof -
  have "set (AList.update k [] adj) \<subseteq> insert (k, []) (set adj)"
    by (rule set_update_subset)
  with assms(2) have "pn \<in> insert (k, []) (set adj)"
    by (rule rev_subsetD)
  then show ?thesis
  proof
    assume "pn = (k, [])"
    then show ?thesis by simp
  next
    assume "pn \<in> set adj"
    with assms(1) show ?thesis by (rule bspec)
  qed
qed

lemma edgeCount_update_append:
  "map_of adj s = Some nbs \<Longrightarrow>
     edgeCount (AList.update s (nbs @ [t]) adj) sel x =
       edgeCount adj sel x + (if sel s \<and> x = t then 1 else 0)"
  unfolding edgeCount_def by (induction adj) (auto split: if_splits)

lemma fold_initNode:
  "distinct (map fst (fst (fold initNode nodes ia)))
   \<and> distinct (map fst (snd (fold initNode nodes ia)))
   \<and> (\<forall>x. getOr0 (fst (fold initNode nodes ia)) x = 0)
   \<and> (\<forall>pn \<in> set (snd (fold initNode nodes ia)). snd pn = [])"
  if "distinct (map fst (fst ia))" "distinct (map fst (snd ia))"
     "\<forall>x. getOr0 (fst ia) x = 0" "\<forall>pn \<in> set (snd ia). snd pn = []"
  using that
proof (induction nodes arbitrary: ia)
  case Nil
  then show ?case by simp
next
  case (Cons n nodes)
  have "distinct (map fst (fst (initNode n ia)))" "distinct (map fst (snd (initNode n ia)))"
    using Cons.prems(1,2) by (simp_all add: initNode_def distinct_update)
  moreover have "\<forall>x. getOr0 (fst (initNode n ia)) x = 0"
    using Cons.prems(3) by (simp add: initNode_def getOr0_update)
  moreover have "\<forall>pn \<in> set (snd (initNode n ia)). snd pn = []"
  proof
    fix pn assume "pn \<in> set (snd (initNode n ia))"
    then have "pn \<in> set (AList.update (node_id n) [] (snd ia))"
      by (simp only: initNode_def snd_conv)
    with Cons.prems(4) show "snd pn = []"
      by (rule update_empty_lists)
  qed
  ultimately show ?case
    using Cons.IH [of "initNode n ia"] by simp
qed

lemma initInv_addEdge:
  assumes inv: "initInv ia"
  shows "initInv (addEdge e ia)"
proof (cases "edge_type e \<in> DIRECTIONAL_EDGE_TYPES")
  case False
  with inv show ?thesis by (simp add: addEdge_def)
next
  case True
  define t where "t = edge_targetId e"
  define d' where "d' = AList.update t (getOr0 (fst ia) t + 1) (fst ia)"
  from inv have d1: "distinct (map fst (fst ia))" and d2: "distinct (map fst (snd ia))"
    by (simp_all add: initInv_def)
  from inv have b: "int (edgeCount (snd ia) (\<lambda>p. True) x) \<le> getOr0 (fst ia) x" for x
    by (simp add: initInv_def)
  have dd: "distinct (map fst d')"
    unfolding d'_def using d1 by (rule distinct_update)
  have up: "getOr0 d' x = getOr0 (fst ia) x + (if x = t then 1 else 0)" for x
    by (simp add: d'_def getOr0_update)
  show ?thesis
  proof (cases "map_of (snd ia) (edge_sourceId e)")
    case None
    then have eq: "addEdge e ia = (d', snd ia)"
      using True by (simp add: addEdge_def d'_def t_def)
    have "int (edgeCount (snd ia) (\<lambda>p. True) x) \<le> getOr0 d' x" for x
      using b [of x] up [of x] by (cases "x = t") simp_all
    then show ?thesis
      unfolding eq initInv_def using dd d2 by simp
  next
    case (Some nbs)
    define adj' where "adj' = AList.update (edge_sourceId e) (nbs @ [t]) (snd ia)"
    from Some have eq: "addEdge e ia = (d', adj')"
      using True by (simp add: addEdge_def d'_def adj'_def t_def)
    have "edgeCount adj' (\<lambda>p. True) x = edgeCount (snd ia) (\<lambda>p. True) x + (if x = t then 1 else 0)" for x
      unfolding adj'_def using edgeCount_update_append [OF Some, of t "\<lambda>p. True" x] by simp
    then have "int (edgeCount adj' (\<lambda>p. True) x) \<le> getOr0 d' x" for x
      using b [of x] up [of x] by (cases "x = t") simp_all
    moreover have "distinct (map fst adj')"
      unfolding adj'_def using d2 by (rule distinct_update)
    ultimately show ?thesis
      unfolding eq initInv_def using dd by simp
  qed
qed

lemma fold_addEdge: "initInv ia \<Longrightarrow> initInv (fold addEdge edges ia)"
  by (induction edges arbitrary: ia) (simp_all add: initInv_addEdge)

lemma seedQueue_zero:
  assumes "distinct (map fst d)" and "x \<in> fst ` set (seedQueue d)"
  shows "getOr0 d x = 0"
proof -
  from assms(2) have "(x, 0) \<in> set d"
    by (auto simp: seedQueue_def)
  with assms(1) have "map_of d x = Some 0"
    by simp
  then show ?thesis
    by (simp add: getOr0_def)
qed

lemma seedQueue_distinct: "distinct (map fst d) \<Longrightarrow> distinct (map fst (seedQueue d))"
  by (simp add: seedQueue_def comp_def distinct_map_filter)

lemma buildLayers_returns: "\<exists>layerMap. buildLayers nodes edges = Some layerMap"
proof -
  let ?ia = "fold addEdge edges (fold initNode nodes ([], []))"
  have "initInv (fold initNode nodes ([], []))"
    using fold_initNode [of "([], [])" nodes]
    by (simp add: initInv_def getOr0_def edgeCount_empty_lists)
  then have inv: "initInv ?ia"
    by (rule fold_addEdge)
  have "layerInv (snd ?ia) (getOr0 (fst ?ia)) {} (seedQueue (fst ?ia)) (fst ?ia)"
    unfolding layerInv_def
  proof (intro conjI allI ballI)
    show "distinct (map fst (snd ?ia))" using inv by (simp add: initInv_def)
    show "distinct (map fst (seedQueue (fst ?ia)))"
      using inv by (simp add: initInv_def seedQueue_distinct)
    show "fst ` set (seedQueue (fst ?ia)) \<inter> {} = {}" by simp
    show "getOr0 (fst ?ia) x
            = getOr0 (fst ?ia) x - int (edgeCount (snd ?ia) (\<lambda>p. p \<in> {}) x)" for x
      by (simp add: edgeCount_none)
    show "int (edgeCount (snd ?ia) (\<lambda>p. True) x) \<le> getOr0 (fst ?ia) x" for x
      using inv by (simp add: initInv_def)
    show "edgeCount (snd ?ia) (\<lambda>p. p \<notin> {}) x = 0"
      if "x \<in> {} \<union> fst ` set (seedQueue (fst ?ia))" for x
    proof -
      from that inv have "getOr0 (fst ?ia) x = 0"
        by (simp add: initInv_def seedQueue_zero)
      moreover from inv have "int (edgeCount (snd ?ia) (\<lambda>p. True) x) \<le> getOr0 (fst ?ia) x"
        by (simp add: initInv_def)
      ultimately show ?thesis by simp
    qed
  qed
  from layerLoop_returns [OF this, of Map.empty]
  obtain r where "layerLoop (snd ?ia) (seedQueue (fst ?ia), fst ?ia, Map.empty) = Some r"
    by blast
  then show ?thesis
    by (simp add: buildLayers_def Let_def)
qed

lemma computeLayout_returns: "\<exists>r. computeLayout localeLe mode nodes edges options = Some r"
proof -
  have "\<exists>r. computeFlowGridLayout nodes edges opts = Some r" for opts
    using buildLayers_returns [of nodes edges]
    by (auto simp: computeFlowGridLayout_def Let_def)
  then show ?thesis
    by (cases mode) (simp_all add: computeLayout_def)
qed

subsection \<open>Every node is placed once\<close>

lemma memberships_pushGroup:
  "memberships (pushGroup key i gs) = insert (key, i) (memberships gs)"
  by (auto simp: memberships_def pushGroup_def split: option.splits if_splits)

lemma placedExactly_empty: "placedExactly emptyLayout {}"
  by (simp add: placedExactly_def emptyLayout_def memberships_def)

lemma placedExactly_place:
  assumes good: "placedExactly lc S" and fresh: "i \<notin> S"
    and pos: "positions lc' = assignProperty i p (positions lc)"
    and grp: "groups lc' = pushGroup key i (groups lc)"
  shows "placedExactly lc' (insert i S)"
proof -
  from good have dom: "dom (positions lc) = S - {''__proto__''}"
    and rng: "snd ` memberships (groups lc) = S"
    and uniq: "\<And>k k' j. (k, j) \<in> memberships (groups lc) \<Longrightarrow> (k', j) \<in> memberships (groups lc)
                 \<Longrightarrow> k = k'"
    and dist: "\<And>k ids. groups lc k = Some ids \<Longrightarrow> distinct ids"
    unfolding placedExactly_def by blast+
  have notin: "(k, i) \<notin> memberships (groups lc)" for k
  proof
    assume "(k, i) \<in> memberships (groups lc)"
    then have "snd (k, i) \<in> snd ` memberships (groups lc)" by (rule imageI)
    with rng fresh show False by simp
  qed
  have m: "memberships (groups lc') = insert (key, i) (memberships (groups lc))"
    by (simp add: grp memberships_pushGroup)
  have c1: "dom (positions lc') = insert i S - {''__proto__''}"
    by (auto simp: pos dom assignProperty_def)
  have c2: "snd ` memberships (groups lc') = insert i S"
    by (simp add: m rng)
  have c3: "k = k'"
    if "(k, j) \<in> memberships (groups lc') \<and> (k', j) \<in> memberships (groups lc')" for k k' j
    using that notin uniq unfolding m by auto
  have c4: "distinct ids" if "groups lc' k = Some ids" for k ids
  proof (cases "k = key")
    case False
    with that have "groups lc k = Some ids" by (simp add: grp pushGroup_def)
    then show ?thesis by (rule dist)
  next
    case True
    show ?thesis
    proof (cases "groups lc key")
      case None
      with that True show ?thesis by (auto simp: grp pushGroup_def)
    next
      case (Some old)
      then have "distinct old" by (rule dist)
      moreover have "i \<notin> set old"
      proof
        assume "i \<in> set old"
        with Some have "(key, i) \<in> memberships (groups lc)"
          by (simp add: memberships_def)
        with notin show False by blast
      qed
      ultimately show ?thesis
        using that True Some by (auto simp: grp pushGroup_def)
    qed
  qed
  show ?thesis
    unfolding placedExactly_def
  proof (intro conjI allI impI)
    show "dom (positions lc') = insert i S - {''__proto__''}" by (rule c1)
    show "snd ` memberships (groups lc') = insert i S" by (rule c2)
    show "k = k'"
      if "(k, j) \<in> memberships (groups lc') \<and> (k', j) \<in> memberships (groups lc')" for k k' j
      using that by (rule c3)
    show "distinct ids" if "groups lc' k = Some ids" for k ids
      using that by (rule c4)
  qed
qed

lemma fold_enumerate_placing:
  fixes xs :: "'a list" and G :: "'s \<Rightarrow> 'i set \<Rightarrow> bool"
  assumes step: "\<And>x i s S. x \<in> set xs \<Longrightarrow> G s S \<Longrightarrow> distinct (ids x) \<Longrightarrow> set (ids x) \<inter> S = {}
                   \<Longrightarrow> G (f x i s) (S \<union> set (ids x))"
    and "distinct (concat (map ids xs))" and "set (concat (map ids xs)) \<inter> S = {}" and "G s S"
  shows "G (fold (\<lambda>ix. f (snd ix) (fst ix)) (enumerate n xs) s) (S \<union> set (concat (map ids xs)))"
  using assms
proof (induction xs arbitrary: n s S)
  case Nil
  then show ?case by simp
next
  case (Cons x xs)
  from Cons.prems(2) have dx: "distinct (ids x)" and dxs: "distinct (concat (map ids xs))"
    and disj: "set (ids x) \<inter> set (concat (map ids xs)) = {}"
    by auto
  from Cons.prems(3) have xS: "set (ids x) \<inter> S = {}"
    and xsS: "set (concat (map ids xs)) \<inter> S = {}"
    by auto
  have G1: "G (f x n s) (S \<union> set (ids x))"
    using Cons.prems(4) dx xS by (intro Cons.prems(1)) simp_all
  have disj': "set (concat (map ids xs)) \<inter> (S \<union> set (ids x)) = {}"
    using disj xsS by auto
  have "G (fold (\<lambda>ix. f (snd ix) (fst ix)) (enumerate (Suc n) xs) (f x n s))
          ((S \<union> set (ids x)) \<union> set (concat (map ids xs)))"
  proof (rule Cons.IH [OF _ dxs disj' G1])
    fix y i s' S'
    assume "y \<in> set xs" "G s' S'" "distinct (ids y)" "set (ids y) \<inter> S' = {}"
    then show "G (f y i s') (S' \<union> set (ids y))"
      by (intro Cons.prems(1)) simp_all
  qed
  moreover have "(S \<union> set (ids x)) \<union> set (concat (map ids xs)) = S \<union> set (concat (map ids (x # xs)))"
    by auto
  ultimately show ?case by simp
qed

lemma forEachIndexed_placing:
  fixes xs :: "'a list" and G :: "'s \<Rightarrow> 'i set \<Rightarrow> bool"
  assumes "\<And>x i s S. x \<in> set xs \<Longrightarrow> G s S \<Longrightarrow> distinct (ids x) \<Longrightarrow> set (ids x) \<inter> S = {}
                   \<Longrightarrow> G (f x i s) (S \<union> set (ids x))"
    and "distinct (concat (map ids xs))" and "set (concat (map ids xs)) \<inter> S = {}" and "G s S"
  shows "G (forEachIndexed f xs s) (S \<union> set (concat (map ids xs)))"
  unfolding forEachIndexed_def using assms by (rule fold_enumerate_placing)

lemma mset_concat_appendTo:
  "mset (concat (map snd (appendTo k v al))) = add_mset v (mset (concat (map snd al)))"
  unfolding appendTo_def
proof (induction al)
  case Nil
  show ?case by simp
next
  case (Cons kv al)
  show ?case
  proof (cases "fst kv = k")
    case True
    then show ?thesis by (cases kv) simp
  next
    case False
    with Cons show ?thesis by (cases kv) simp
  qed
qed

lemma mset_concat_fold_appendTo:
  "mset (concat (map snd (fold (\<lambda>x. appendTo (key x) x) xs al)))
     = mset xs + mset (concat (map snd al))"
  by (induction xs arbitrary: al) (simp_all add: mset_concat_appendTo)

lemma mset_concat_cong:
  assumes "mset xss = mset yss"
  shows "mset (concat xss) = mset (concat yss)"
proof -
  have "mset (concat zs) = sum_mset (image_mset mset (mset zs))" for zs :: "'a list list"
    by (induction zs) simp_all
  with assms show ?thesis by simp
qed

lemma mset_insertBy: "mset (insertBy le a bs) = add_mset a (mset bs)"
  by (induction bs) simp_all

lemma mset_sortBy: "mset (sortBy le as) = mset as"
  unfolding sortBy_def by (induction as) (simp_all add: mset_insertBy)

lemma distinct_ids_cong:
  fixes xs ys :: "Node list"
  assumes "mset xs = mset ys"
  shows "distinct (map node_id xs) = distinct (map node_id ys)"
    and "node_id ` set xs = node_id ` set ys"
proof -
  from assms have "mset (map node_id xs) = mset (map node_id ys)"
    by simp
  then show "distinct (map node_id xs) = distinct (map node_id ys)"
    by (rule mset_eq_imp_distinct_iff)
  from assms have "set xs = set ys" by (rule mset_eq_setD)
  then show "node_id ` set xs = node_id ` set ys" by simp
qed

lemma mset_sortByY: "mset (sortByY ns) = mset ns"
  by (simp add: sortByY_def)

lemma placedExactly_assignNode:
  assumes "placedExactly lc S" and "node_id node \<notin> S"
  shows "placedExactly (assignNode options groupId columnIndex x node index lc)
           (insert (node_id node) S)"
  using assms by (rule placedExactly_place) (simp_all add: assignNode_def)

lemma placedExactly_flowNode:
  assumes "placedExactly lc S" and "node_id node \<notin> S"
  shows "placedExactly (flowNode options layer x node index lc) (insert (node_id node) S)"
  using assms by (rule placedExactly_place) (simp_all add: flowNode_def)

lemma placedExactly_timeNode:
  assumes "placedExactly lc S" and "node_id node \<notin> S"
  shows "placedExactly (timeNode options node index lc) (insert (node_id node) S)"
  using assms by (rule placedExactly_place) (simp_all add: timeNode_def Let_def)

lemma placedExactly_column:
  fixes f :: "Node \<Rightarrow> nat \<Rightarrow> LayoutComputation \<Rightarrow> LayoutComputation"
    and ns ms :: "Node list"
  assumes step: "\<And>node index lc S. placedExactly lc S \<Longrightarrow> node_id node \<notin> S
                   \<Longrightarrow> placedExactly (f node index lc) (insert (node_id node) S)"
    and good: "placedExactly lc S"
    and dist: "distinct (map node_id ns)" and disj: "node_id ` set ns \<inter> S = {}"
    and perm: "mset ms = mset ns"
  shows "placedExactly (forEachIndexed f ms lc) (S \<union> node_id ` set ns)"
proof -
  let ?ids = "\<lambda>n :: Node. [node_id n]"
  have c: "concat (map ?ids ms) = map node_id ms"
    by (induction ms) simp_all
  have d: "distinct (concat (map ?ids ms))"
    using dist distinct_ids_cong(1) [OF perm] by (simp add: c)
  have s: "set (concat (map ?ids ms)) = node_id ` set ns"
    using distinct_ids_cong(2) [OF perm] by (simp add: c)
  have "placedExactly (forEachIndexed f ms lc) (S \<union> set (concat (map ?ids ms)))"
  proof (rule forEachIndexed_placing [where G = placedExactly and ids = ?ids, OF _ d _ good])
    show "set (concat (map ?ids ms)) \<inter> S = {}"
      using disj by (simp only: s)
  next
    fix x :: Node and i s' S'
    assume "placedExactly s' S'" and "set [node_id x] \<inter> S' = {}"
    then have "placedExactly (f x i s') (insert (node_id x) S')"
      by (intro step) simp_all
    then show "placedExactly (f x i s') (S' \<union> set [node_id x])"
      by simp
  qed
  then show ?thesis by (simp only: s)
qed

lemma placedExactly_assignGroup:
  assumes "placedExactly lc S" and "distinct (map node_id (snd g))"
    and "set (map node_id (snd g)) \<inter> S = {}"
  shows "placedExactly (assignGroup options g columnIndex lc) (S \<union> set (map node_id (snd g)))"
  unfolding assignGroup_def set_map
  using assms(1,2)
proof (rule placedExactly_column [rotated])
  show "node_id ` set (snd g) \<inter> S = {}" using assms(3) by simp
  show "mset (sortByY (snd g)) = mset (snd g)" by (rule mset_sortByY)
qed (rule placedExactly_assignNode)

lemma placedExactly_flowColumn:
  assumes "placedExactly lc S" and "distinct (map node_id (snd g))"
    and "set (map node_id (snd g)) \<inter> S = {}"
  shows "placedExactly (flowColumn options g columnIndex lc) (S \<union> set (map node_id (snd g)))"
  unfolding flowColumn_def set_map
  using assms(1,2)
proof (rule placedExactly_column [rotated])
  show "node_id ` set (snd g) \<inter> S = {}" using assms(3) by simp
  show "mset (sortByY (snd g)) = mset (snd g)" by (rule mset_sortByY)
qed (rule placedExactly_flowNode)

lemma concat_ids:
  fixes gs :: "('c \<times> Node list) list"
  shows "concat (map (\<lambda>g. map node_id (snd g)) gs) = map node_id (concat (map snd gs))"
  by (induction gs) simp_all

lemma placedExactly_columns:
  fixes f :: "'c \<times> Node list \<Rightarrow> nat \<Rightarrow> LayoutComputation \<Rightarrow> LayoutComputation"
    and nodes :: "Node list"
  assumes step: "\<And>g i lc S. placedExactly lc S \<Longrightarrow> distinct (map node_id (snd g))
                   \<Longrightarrow> set (map node_id (snd g)) \<inter> S = {}
                   \<Longrightarrow> placedExactly (f g i lc) (S \<union> set (map node_id (snd g)))"
    and perm: "mset (concat (map snd gs)) = mset nodes"
    and dist: "distinct (map node_id nodes)"
  shows "placedExactly (forEachIndexed f gs emptyLayout) (node_id ` set nodes)"
proof -
  let ?ids = "\<lambda>g :: 'c \<times> Node list. map node_id (snd g)"
  have d: "distinct (concat (map ?ids gs))"
    using dist distinct_ids_cong(1) [OF perm] by (simp add: concat_ids)
  have s: "set (concat (map ?ids gs)) = node_id ` set nodes"
    using distinct_ids_cong(2) [OF perm] by (simp only: concat_ids set_map)
  have "placedExactly (forEachIndexed f gs emptyLayout) ({} \<union> set (concat (map ?ids gs)))"
  proof (rule forEachIndexed_placing [where G = placedExactly and ids = ?ids, OF _ d _ placedExactly_empty])
    show "set (concat (map ?ids gs)) \<inter> {} = {}" by simp
  next
    fix x :: "'c \<times> Node list" and i s' S'
    assume "placedExactly s' S'" and "distinct (map node_id (snd x))"
      and "set (map node_id (snd x)) \<inter> S' = {}"
    then show "placedExactly (f x i s') (S' \<union> set (map node_id (snd x)))"
      by (rule step)
  qed
  then show ?thesis by (simp only: s Un_empty_left)
qed

lemma placedExactly_assignPositionsFromGroups:
  assumes "mset (concat (map snd entries)) = mset nodes" and "distinct (map node_id nodes)"
  shows "placedExactly (assignPositionsFromGroups entries options) (node_id ` set nodes)"
  unfolding assignPositionsFromGroups_def
  using _ assms by (rule placedExactly_columns) (rule placedExactly_assignGroup)

lemma mset_fold_tagNode:
  "mset (concat (map snd (fst (fold tagNode ns tu)))) + mset (snd (fold tagNode ns tu))
     = mset ns + (mset (concat (map snd (fst tu))) + mset (snd tu))"
proof (induction ns arbitrary: tu)
  case Nil
  show ?case by simp
next
  case (Cons n ns)
  have "mset (concat (map snd (fst (tagNode n tu)))) + mset (snd (tagNode n tu))
          = add_mset n (mset (concat (map snd (fst tu))) + mset (snd tu))"
    by (cases "node_tags n") (simp_all add: tagNode_def mset_concat_appendTo)
  with Cons.IH [of "tagNode n tu"] show ?case
    by simp
qed

lemma mset_tagEntries: "mset (concat (map snd (tagEntries localeLe nodes))) = mset nodes"
proof -
  let ?tu = "fold tagNode nodes ([], [])"
  let ?entries = "sortBy (\<lambda>a b. localeLe (fst a) (fst b)) (fst ?tu)"
  have "mset (concat (map snd ?entries)) = mset (concat (map snd (fst ?tu)))"
    by (rule mset_concat_cong) (simp add: mset_sortBy)
  moreover have "mset (concat (map snd (fst ?tu))) + mset (snd ?tu) = mset nodes"
    using mset_fold_tagNode [of nodes "([], [])"] by simp
  ultimately have "mset (concat (map snd ?entries)) + mset (snd ?tu) = mset nodes"
    by simp
  then show ?thesis
    by (cases "snd ?tu = []") (simp_all add: tagEntries_def Let_def)
qed

lemma getOrNil_appendTo:
  "getOrNil (appendTo k v m) k' = (if k' = k then getOrNil m k @ [v] else getOrNil m k')"
  by (simp add: getOrNil_def appendTo_def update_conv')

lemma getOrNil_fold_appendTo:
  "getOrNil (fold (\<lambda>x. appendTo (key x) x) xs m) k = getOrNil m k @ filter (\<lambda>x. key x = k) xs"
  by (induction xs arbitrary: m) (simp_all add: getOrNil_appendTo)

lemma concat_map_filter_nonempty:
  "concat (map g (filter (\<lambda>x. g x \<noteq> []) xs)) = concat (map g xs)"
  by (induction xs) simp_all

lemma mset_by_kind:
  fixes ns :: "Node list"
  shows "mset (filter (\<lambda>n. node_kind n = NOTE) ns) + mset (filter (\<lambda>n. node_kind n = IDEA) ns)
       + mset (filter (\<lambda>n. node_kind n = TASK) ns) + mset (filter (\<lambda>n. node_kind n = TAG) ns)
       = mset ns"
proof (induction ns)
  case Nil
  show ?case by simp
next
  case (Cons n ns)
  then show ?case
    by (cases "node_kind n") simp_all
qed

lemma map_of_present_iff:
  "(map_of (fold (\<lambda>x. appendTo (key x) x) xs []) k \<noteq> None)
     = (getOrNil (fold (\<lambda>x. appendTo (key x) x) xs []) k \<noteq> [])"
proof -
  have "\<forall>kv \<in> set (fold (\<lambda>x. appendTo (key x) x) xs m). snd kv \<noteq> []"
    if "\<forall>kv \<in> set m. snd kv \<noteq> []" for m
    using that
  proof (induction xs arbitrary: m)
    case Nil
    then show ?case by simp
  next
    case (Cons x xs)
    have "\<forall>kv \<in> set (appendTo (key x) x m). snd kv \<noteq> []"
    proof
      fix kv assume "kv \<in> set (appendTo (key x) x m)"
      then have "kv \<in> insert (key x, getOrNil m (key x) @ [x]) (set m)"
        using set_update_subset [of "key x" "getOrNil m (key x) @ [x]" m]
        by (auto simp: appendTo_def getOrNil_def)
      with Cons.prems show "snd kv \<noteq> []" by auto
    qed
    then show ?case using Cons.IH by simp
  qed
  from this [of "[]"] have ne: "\<forall>kv \<in> set (fold (\<lambda>x. appendTo (key x) x) xs []). snd kv \<noteq> []"
    by simp
  show ?thesis
  proof (cases "map_of (fold (\<lambda>x. appendTo (key x) x) xs []) k")
    case None
    then show ?thesis by (simp add: getOrNil_def)
  next
    case (Some vs)
    then have "(k, vs) \<in> set (fold (\<lambda>x. appendTo (key x) x) xs [])"
      by (rule map_of_SomeD)
    with ne have "vs \<noteq> []" by auto
    with Some show ?thesis by (simp add: getOrNil_def)
  qed
qed

lemma mset_typeEntries: "mset (concat (map snd (typeEntries nodes))) = mset nodes"
proof -
  let ?tg = "fold (\<lambda>x. appendTo (node_kind x) x) nodes []"
  have tg: "fold kindNode nodes [] = ?tg"
    by (simp add: kindNode_def [abs_def])
  have "concat (map snd (typeEntries nodes))
          = concat (map (getOrNil ?tg) (filter (\<lambda>kind. getOrNil ?tg kind \<noteq> []) ORDERED_NODE_KINDS))"
    unfolding typeEntries_def Let_def tg map_of_present_iff
    by (simp add: comp_def getOrNil_def [abs_def])
  also have "\<dots> = concat (map (getOrNil ?tg) ORDERED_NODE_KINDS)"
    by (rule concat_map_filter_nonempty)
  finally have eq: "concat (map snd (typeEntries nodes)) = concat (map (getOrNil ?tg) ORDERED_NODE_KINDS)" .
  have nil: "getOrNil [] k = []" for k :: NodeKind
    by (simp add: getOrNil_def)
  have g: "getOrNil ?tg k = filter (\<lambda>x. node_kind x = k) nodes" for k
    by (simp only: getOrNil_fold_appendTo nil append_Nil)
  show ?thesis
    unfolding eq ORDERED_NODE_KINDS_def
    using mset_by_kind [of nodes] by (simp only: g list.map concat.simps mset_append append_Nil2 ac_simps)
qed

lemma mset_grouped:
  "mset (concat (map snd (sort_key fst (fold (groupByLayer layerMap) nodes [])))) = mset nodes"
proof -
  have "fold (groupByLayer layerMap) nodes []
          = fold (\<lambda>x. appendTo (case layerMap (node_id x) of None \<Rightarrow> 0 | Some l \<Rightarrow> l) x) nodes []"
    by (simp add: groupByLayer_def [abs_def])
  then have a: "mset (concat (map snd (fold (groupByLayer layerMap) nodes []))) = mset nodes"
    by (simp add: mset_concat_fold_appendTo)
  have b: "mset (concat (map snd (sort_key fst (fold (groupByLayer layerMap) nodes []))))
             = mset (concat (map snd (fold (groupByLayer layerMap) nodes [])))"
    by (rule mset_concat_cong) simp
  show ?thesis by (simp only: b a)
qed

lemma placedExactly_partition:
  assumes "placedExactly r S"
  shows "dom (positions r) = S - {''__proto__''}"
    and "i \<in> S \<Longrightarrow> \<exists>!k. \<exists>ids. groups r k = Some ids \<and> i \<in> set ids"
    and "groups r k = Some ids \<Longrightarrow> distinct ids \<and> set ids \<subseteq> S"
proof -
  from assms have dom: "dom (positions r) = S - {''__proto__''}"
    and rng: "snd ` memberships (groups r) = S"
    and uniq: "\<forall>k k' j. (k, j) \<in> memberships (groups r) \<and> (k', j) \<in> memberships (groups r)
                 \<longrightarrow> k = k'"
    and dist: "\<forall>k ids. groups r k = Some ids \<longrightarrow> distinct ids"
    unfolding placedExactly_def by simp_all
  show "dom (positions r) = S - {''__proto__''}" by (rule dom)
  show "\<exists>!k. \<exists>ids. groups r k = Some ids \<and> i \<in> set ids" if "i \<in> S"
  proof -
    from that rng obtain ki where ki: "ki \<in> memberships (groups r)" and "snd ki = i"
      by auto
    then have ex: "\<exists>ids. groups r (fst ki) = Some ids \<and> i \<in> set ids"
      by (simp add: memberships_def)
    show ?thesis
    proof (rule ex1I [of _ "fst ki"])
      show "\<exists>ids. groups r (fst ki) = Some ids \<and> i \<in> set ids" by (rule ex)
    next
      fix k assume "\<exists>ids. groups r k = Some ids \<and> i \<in> set ids"
      then have "(k, i) \<in> memberships (groups r)"
        by (simp add: memberships_def)
      moreover from ex have "(fst ki, i) \<in> memberships (groups r)"
        by (simp add: memberships_def)
      ultimately show "k = fst ki"
        using uniq by (elim allE [of _ k] allE [of _ "fst ki"] allE [of _ i]) simp
    qed
  qed
  show "distinct ids \<and> set ids \<subseteq> S" if g: "groups r k = Some ids"
  proof
    from dist g show "distinct ids" by (elim allE [of _ k] allE [of _ ids]) simp
    show "set ids \<subseteq> S"
    proof
      fix j assume "j \<in> set ids"
      with g have "(k, j) \<in> memberships (groups r)" by (simp add: memberships_def)
      then have "snd (k, j) \<in> snd ` memberships (groups r)" by (rule imageI)
      with rng show "j \<in> S" by simp
    qed
  qed
qed

lemma placedExactly_layoutByTime:
  assumes "distinct (map node_id nodes)"
  shows "placedExactly (layoutByTime nodes options) (node_id ` set nodes)"
proof (cases "nodes = []")
  case True
  then show ?thesis by (simp add: layoutByTime_def placedExactly_empty)
next
  case False
  have "placedExactly (forEachIndexed (timeNode options) (sort_key node_createdAt nodes) emptyLayout)
          ({} \<union> node_id ` set nodes)"
    using _ placedExactly_empty assms
  proof (rule placedExactly_column)
    show "node_id ` set nodes \<inter> {} = {}" by simp
    show "mset (sort_key node_createdAt nodes) = mset nodes" by simp
  qed (rule placedExactly_timeNode)
  with False show ?thesis by (simp add: layoutByTime_def)
qed

lemma placedExactly_computeFlowGridLayout:
  assumes "distinct (map node_id nodes)" and "computeFlowGridLayout nodes edges options = Some r"
  shows "placedExactly r (node_id ` set nodes)"
proof (cases "nodes = []")
  case True
  with assms(2) show ?thesis by (auto simp: computeFlowGridLayout_def placedExactly_empty)
next
  case False
  with assms(2) obtain layerMap L where
    r: "r = (forEachIndexed (flowColumn options)
               (sort_key fst (fold (groupByLayer layerMap) nodes [])) emptyLayout)\<lparr>layers := L\<rparr>"
    by (auto simp: computeFlowGridLayout_def Let_def split: option.splits)
  have "placedExactly (forEachIndexed (flowColumn options)
               (sort_key fst (fold (groupByLayer layerMap) nodes [])) emptyLayout)
          (node_id ` set nodes)"
    using _ mset_grouped assms(1) by (rule placedExactly_columns) (rule placedExactly_flowColumn)
  then show ?thesis
    unfolding r by (simp add: placedExactly_def)
qed

lemma computeLayout_placedExactly:
  assumes "distinct (map node_id nodes)"
    and "computeLayout localeLe mode nodes edges options = Some r"
  shows "placedExactly r (node_id ` set nodes)"
proof (cases mode)
  case flowGrid
  with assms(2) show ?thesis
    by (simp add: computeLayout_def placedExactly_computeFlowGridLayout [OF assms(1)])
next
  case byTags
  with assms(2) have "r = layoutByTags localeLe nodes (ensureOptions options)"
    by (simp add: computeLayout_def)
  then show ?thesis
    unfolding layoutByTags_def
    using placedExactly_assignPositionsFromGroups [OF mset_tagEntries assms(1)] by simp
next
  case byTypes
  with assms(2) have "r = layoutByTypes nodes (ensureOptions options)"
    by (simp add: computeLayout_def)
  then show ?thesis
    unfolding layoutByTypes_def
    using placedExactly_assignPositionsFromGroups [OF mset_typeEntries assms(1)] by simp
next
  case byCausality
  with assms(2) show ?thesis
    by (simp add: computeLayout_def placedExactly_computeFlowGridLayout [OF assms(1)])
next
  case byTime
  with assms(2) have "r = layoutByTime nodes (ensureOptions options)"
    by (simp add: computeLayout_def)
  then show ?thesis
    using placedExactly_layoutByTime [OF assms(1)] by simp
qed

subsection \<open>The columns of the layout by tags\<close>

text \<open>
  For a total and transitive collation the columns of the layout by tags are: one column for
  each first tag that occurs, in the order of the collation, holding the nodes with that
  first tag in the order of the input; then, when there is a node without tags, one more
  column with the key \<open>untagged\<close> holding these nodes.
\<close>

lemma fold_tagNode_split:
  "fold tagNode ns tu =
     (fold (\<lambda>n. appendTo (the (firstTag n)) n) (filter (\<lambda>n. firstTag n \<noteq> None) ns) (fst tu),
      snd tu @ filter (\<lambda>n. node_tags n = []) ns)"
proof (induction ns arbitrary: tu)
  case Nil
  show ?case by simp
next
  case (Cons n ns)
  show ?case
  proof (cases "node_tags n")
    case Nil
    then have "tagNode n tu = (fst tu, snd tu @ [n])" and "firstTag n = None"
      by (simp_all add: tagNode_def firstTag_def)
    with Nil Cons.IH [of "(fst tu, snd tu @ [n])"] show ?thesis by simp
  next
    case (Cons t ts)
    then have "tagNode n tu = (appendTo t n (fst tu), snd tu)" and "firstTag n = Some t"
      by (simp_all add: tagNode_def firstTag_def)
    with Cons Cons.IH [of "(appendTo t n (fst tu), snd tu)"] show ?thesis by simp
  qed
qed

lemma distinct_fold_appendTo:
  "distinct (map fst m) \<Longrightarrow> distinct (map fst (fold (\<lambda>x. appendTo (key x) x) xs m))"
  by (induction xs arbitrary: m) (simp_all add: appendTo_def distinct_update)

lemma sorted_insertBy:
  assumes total: "\<And>a b. le a b \<or> le b a" and trans: "\<And>a b c. le a b \<Longrightarrow> le b c \<Longrightarrow> le a c"
    and "sorted_wrt le bs"
  shows "sorted_wrt le (insertBy le a bs)"
  using assms(3)
proof (induction bs)
  case Nil
  show ?case by simp
next
  case (Cons b bs)
  show ?case
  proof (cases "le a b")
    case True
    have "le a c" if "c \<in> set bs" for c
      using Cons.prems that True trans by auto
    with True Cons.prems show ?thesis by simp
  next
    case False
    with total [of a b] have ba: "le b a" by simp
    have "set (insertBy le a bs) = insert a (set bs)"
      by (induction bs) auto
    with Cons ba False show ?thesis by auto
  qed
qed

lemma sorted_sortBy:
  assumes "\<And>a b. le a b \<or> le b a" and "\<And>a b c. le a b \<Longrightarrow> le b c \<Longrightarrow> le a c"
  shows "sorted_wrt le (sortBy le as)"
  unfolding sortBy_def
  by (induction as) (simp_all add: sorted_insertBy [OF assms])

lemma set_sortBy: "set (sortBy le as) = set as"
  using mset_sortBy [of le as] by (metis set_mset_mset)

lemma tagEntries_columns:
  assumes total: "\<And>a b. localeLe a b \<or> localeLe b a"
    and trans: "\<And>a b c. localeLe a b \<Longrightarrow> localeLe b c \<Longrightarrow> localeLe a c"
  shows "\<exists>tagged.
           tagEntries localeLe nodes =
             tagged @ (if filter (\<lambda>n. node_tags n = []) nodes \<noteq> []
                       then [(''untagged'', filter (\<lambda>n. node_tags n = []) nodes)] else [])
           \<and> sorted_wrt (\<lambda>a b. localeLe (fst a) (fst b)) tagged
           \<and> distinct (map fst tagged)
           \<and> fst ` set tagged = {t. \<exists>n \<in> set nodes. firstTag n = Some t}
           \<and> (\<forall>g \<in> set tagged. snd g = filter (\<lambda>n. firstTag n = Some (fst g)) nodes)"
proof -
  let ?key = "\<lambda>n. the (firstTag n)"
  let ?T = "filter (\<lambda>n. firstTag n \<noteq> None) nodes"
  let ?G = "fold (\<lambda>n. appendTo (?key n) n) ?T []"
  let ?U = "filter (\<lambda>n. node_tags n = []) nodes"
  let ?le = "\<lambda>a b :: string \<times> Node list. localeLe (fst a) (fst b)"
  let ?S = "sortBy ?le ?G"
  have split: "fold tagNode nodes ([], []) = (?G, ?U)"
    using fold_tagNode_split [of nodes "([], [])"] by simp
  have eq: "tagEntries localeLe nodes = ?S @ (if ?U \<noteq> [] then [(''untagged'', ?U)] else [])"
    by (simp add: tagEntries_def Let_def split)
  have dG: "distinct (map fst ?G)"
    by (rule distinct_fold_appendTo) simp
  have nil: "getOrNil ([] :: (string \<times> Node list) list) k = []" for k
    by (simp add: getOrNil_def)
  have gn: "getOrNil ?G k = filter (\<lambda>n. ?key n = k) ?T" for k
    using getOrNil_fold_appendTo [of ?key ?T "[]" k] by (simp only: nil append_Nil)
  have content: "vs = filter (\<lambda>n. firstTag n = Some k) nodes \<and> vs \<noteq> []" if "(k, vs) \<in> set ?G" for k vs
  proof -
    from dG that have "map_of ?G k = Some vs" by simp
    then have "getOrNil ?G k = vs" and present: "map_of ?G k \<noteq> None"
      by (simp_all add: getOrNil_def)
    moreover have "getOrNil ?G k = filter (\<lambda>n. ?key n = k) ?T"
      by (rule gn)
    moreover have "filter (\<lambda>n. ?key n = k) ?T = filter (\<lambda>n. firstTag n = Some k) nodes"
      by (induction nodes) auto
    moreover from present have "getOrNil ?G k \<noteq> []"
      using map_of_present_iff [of ?key ?T k] by (rule_tac iffD1)
    ultimately show ?thesis by simp
  qed
  have keys: "fst ` set ?G = {t. \<exists>n \<in> set nodes. firstTag n = Some t}"
  proof (intro set_eqI iffI)
    fix t assume "t \<in> fst ` set ?G"
    then obtain vs where "(t, vs) \<in> set ?G" by auto
    note c = content [OF this]
    have a: "vs = filter (\<lambda>n. firstTag n = Some t) nodes" by (rule conjunct1 [OF c])
    have b: "vs \<noteq> []" by (rule conjunct2 [OF c])
    from b have "filter (\<lambda>n. firstTag n = Some t) nodes \<noteq> []" unfolding a .
    then obtain n where "n \<in> set nodes" "firstTag n = Some t"
      by (auto simp: filter_empty_conv)
    then show "t \<in> {t. \<exists>n \<in> set nodes. firstTag n = Some t}" by auto
  next
    fix t assume "t \<in> {t. \<exists>n \<in> set nodes. firstTag n = Some t}"
    then have "filter (\<lambda>n. ?key n = t) ?T \<noteq> []"
      by (auto simp: filter_empty_conv)
    then have "getOrNil ?G t \<noteq> []"
      unfolding gn .
    then have "map_of ?G t \<noteq> None"
      using map_of_present_iff [of ?key ?T t] by (rule_tac iffD2)
    then show "t \<in> fst ` set ?G"
      by (simp add: map_of_eq_None_iff)
  qed
  have "sorted_wrt ?le ?S"
    by (rule sorted_sortBy) (use total trans in blast)+
  moreover have "distinct (map fst ?S)"
  proof -
    have "mset (map fst ?S) = mset (map fst ?G)"
      by (simp only: mset_map mset_sortBy)
    from mset_eq_imp_distinct_iff [OF this] dG show ?thesis by (rule_tac iffD2)
  qed
  moreover have "fst ` set ?S = {t. \<exists>n \<in> set nodes. firstTag n = Some t}"
    by (simp only: set_sortBy keys)
  moreover have "\<forall>g \<in> set ?S. snd g = filter (\<lambda>n. firstTag n = Some (fst g)) nodes"
  proof
    fix g assume "g \<in> set ?S"
    then have "(fst g, snd g) \<in> set ?G" by (simp add: set_sortBy)
    from content [OF this] show "snd g = filter (\<lambda>n. firstTag n = Some (fst g)) nodes"
      by (rule conjunct1)
  qed
  ultimately show ?thesis
    using eq by (intro exI [of _ ?S] conjI)
qed

section \<open>The claims about the layout engine\<close>

subsection \<open>Evaluation of the layout on sample values\<close>

lemmas layout_eval = buildLayers_def Let_def initNode_def addEdge_def DIRECTIONAL_EDGE_TYPES_def
  getOr0_def neighborsOf_def seedQueue_def layerLoop.simps dequeue_def visitNeighbor_def
  fillLayer_def plainNode_def edge_def taggedNode_def
  computeLayout_def ensureOptions_def spreadOver_def DEFAULT_LAYOUT_OPTIONS_def assignProperty_def
  computeFlowGridLayout_def groupByLayer_def flowColumn_def flowNode_def forEachIndexed_def
  enumerate_eq_zip sortByY_def gridCoordinate_def snapToGrid_num_def pushGroup_def emptyLayout_def
  layoutByTags_def tagEntries_def tagNode_def sortBy_def assignPositionsFromGroups_def
  assignGroup_def assignNode_def appendTo_def layoutByTypes_def typeEntries_def kindNode_def
  ORDERED_NODE_KINDS_def layoutByTime_def timeNode_def round_def showInt_def truncReal_def

subsection \<open>Layering\<close>

text \<open>
  Claim C2: for a directional edge from \<open>A\<close> to \<open>B\<close> with no directional cycle through \<open>A\<close>,
  the layer map of the flow layout has \<open>layer B \<ge> layer A + 1\<close>, and a node with several
  directional predecessors has the maximum of the layers they give it. The code does
  not do this. Take the nodes \<open>A\<close>, \<open>B\<close>, \<open>C\<close>, \<open>D\<close> and the causal edges \<open>A \<rightarrow> C\<close>, \<open>B \<rightarrow> C\<close>,
  \<open>C \<rightarrow> D\<close> (no cycle). Processing \<open>A\<close> relaxes the layer of \<open>C\<close> to \<open>1\<close>; processing \<open>B\<close>
  queues \<open>C\<close> with layer \<open>1\<close>; when \<open>C\<close> is taken off the queue, the guard
  \<^verbatim>\<open>existingLayer >= current.layer\<close> skips it, so its successor \<open>D\<close> is never visited and
  keeps the default layer \<open>0\<close>, below the layer \<open>1\<close> of \<open>C\<close>.
\<close>

theorem computeLayout_successor_left_at_layer_0:
  "\<exists>r. computeLayout codeUnitLe flowGrid
          [plainNode ''A'' 0 0, plainNode ''B'' 0 0, plainNode ''C'' 0 0, plainNode ''D'' 0 0]
          [edge ''A'' ''C'' CAUSES, edge ''B'' ''C'' CAUSES, edge ''C'' ''D'' CAUSES] None = Some r
       \<and> layers r ''A'' = Some (Fin 0) \<and> layers r ''B'' = Some (Fin 0)
       \<and> layers r ''C'' = Some (Fin 1) \<and> layers r ''D'' = Some (Fin 0)
       \<and> CAUSES \<in> DIRECTIONAL_EDGE_TYPES"
  by (simp add: layout_eval)

lemma buildLayers_skips_relaxed_node:
  "\<exists>layerMap.
     buildLayers [plainNode ''A'' 0 0, plainNode ''B'' 0 0, plainNode ''C'' 0 0, plainNode ''D'' 0 0]
       [edge ''A'' ''C'' CAUSES, edge ''B'' ''C'' CAUSES, edge ''C'' ''D'' CAUSES] = Some layerMap
     \<and> layerMap ''A'' = Some 0 \<and> layerMap ''B'' = Some 0
     \<and> layerMap ''C'' = Some 1 \<and> layerMap ''D'' = Some 0"
  by (simp add: layout_eval)

text \<open>The scenario of the specification, a chain \<open>A \<rightarrow> B \<rightarrow> C\<close>, is layered as intended.\<close>

lemma computeLayout_chain:
  "\<exists>r. computeLayout codeUnitLe flowGrid
          [plainNode ''A'' 0 0, plainNode ''B'' 0 0, plainNode ''C'' 0 0]
          [edge ''A'' ''B'' CAUSES, edge ''B'' ''C'' SUPPORTS] None = Some r
       \<and> layers r ''A'' = Some (Fin 0) \<and> layers r ''B'' = Some (Fin 1)
       \<and> layers r ''C'' = Some (Fin 2)
       \<and> positions r ''A'' = Some \<lparr>xc = Fin 120, yc = Fin 120\<rparr>
       \<and> positions r ''B'' = Some \<lparr>xc = Fin 360, yc = Fin 120\<rparr>
       \<and> positions r ''C'' = Some \<lparr>xc = Fin 600, yc = Fin 120\<rparr>"
  by (simp add: layout_eval)

subsection \<open>Edges with an unknown endpoint\<close>

text \<open>
  Claim C3: an edge whose source or target is not the id of a node has no effect on the
  result of \<^verbatim>\<open>computeLayout\<close>. The code guards the adjacency list of an unknown source,
  but counts the edge in the indegree of its target all the same. With the nodes \<open>A\<close>,
  \<open>B\<close>, \<open>C\<close>, the edges \<open>A \<rightarrow> B\<close>, \<open>B \<rightarrow> C\<close> and the edge \<open>X \<rightarrow> B\<close> from an unknown \<open>X\<close>, the
  indegree of \<open>B\<close> never reaches \<open>0\<close>, \<open>B\<close> is never taken off the queue, and \<open>C\<close> stays at
  layer \<open>0\<close> in column \<open>0\<close>; without that edge \<open>C\<close> is at layer \<open>2\<close> in column \<open>2\<close>.
\<close>

theorem computeLayout_unknown_source_changes_layout:
  "\<exists>r r'.
     computeLayout codeUnitLe flowGrid
       [plainNode ''A'' 0 0, plainNode ''B'' 0 0, plainNode ''C'' 0 0]
       [edge ''A'' ''B'' CAUSES, edge ''B'' ''C'' CAUSES, edge ''X'' ''B'' CAUSES] None = Some r
     \<and> computeLayout codeUnitLe flowGrid
       [plainNode ''A'' 0 0, plainNode ''B'' 0 0, plainNode ''C'' 0 0]
       [edge ''A'' ''B'' CAUSES, edge ''B'' ''C'' CAUSES] None = Some r'
     \<and> layers r ''C'' = Some (Fin 0) \<and> layers r' ''C'' = Some (Fin 2)
     \<and> positions r ''C'' = Some \<lparr>xc = Fin 120, yc = Fin 280\<rparr>
     \<and> positions r' ''C'' = Some \<lparr>xc = Fin 600, yc = Fin 120\<rparr>
     \<and> groups r ''layer:0'' = Some [''A'', ''C''] \<and> groups r' ''layer:0'' = Some [''A'']"
  by (simp add: layout_eval)

text \<open>An unknown target gets an entry in the layer map, which without the edge has none.\<close>

lemma computeLayout_unknown_target_gets_layer:
  "\<exists>r r'.
     computeLayout codeUnitLe flowGrid [plainNode ''A'' 0 0] [edge ''A'' ''Y'' CAUSES] None = Some r
     \<and> computeLayout codeUnitLe flowGrid [plainNode ''A'' 0 0] [] None = Some r'
     \<and> layers r ''Y'' = Some (Fin 1) \<and> layers r' ''Y'' = None"
  by (simp add: layout_eval)

subsection \<open>Grouping by tag\<close>

text \<open>
  Claim C8: in the layout by tags the nodes without tags form a distinguished group
  \<open>untagged\<close>, which is the last column; the other groups are the first tags in the
  order of the collation, each sorted by vertical coordinate. The group of the nodes
  without tags is not distinguished from a tag of that name: with one node tagged
  \<open>untagged\<close> and one node without tags, the columns \<open>0\<close> and \<open>1\<close> both carry the key
  \<open>untagged\<close>, and the one group of that key in the result holds both nodes.
\<close>

theorem layoutByTags_untagged_tag_collides:
  "\<exists>r. computeLayout codeUnitLe byTags
          [taggedNode ''n1'' [''untagged''] 0, taggedNode ''n2'' [] 0] [] None = Some r
       \<and> groups r ''untagged'' = Some [''n1'', ''n2'']
       \<and> layers r ''n1'' = Some (Fin 0) \<and> layers r ''n2'' = Some (Fin 1)
       \<and> positions r ''n1'' = Some \<lparr>xc = Fin 120, yc = Fin 120\<rparr>
       \<and> positions r ''n2'' = Some \<lparr>xc = Fin 360, yc = Fin 120\<rparr>"
  by (simp add: layout_eval)

text \<open>Apart from this collision of keys the columns are as the claim says (lemma
  \<open>tagEntries_columns\<close> above). The scenario of the specification (tag lists \<open>[x]\<close>, \<open>[x]\<close>,
  \<open>[]\<close>), and an example with two tags, evaluate as the claim says.\<close>

lemma layoutByTags_scenario:
  "tagEntries codeUnitLe
     [taggedNode ''n1'' [''x''] 0, taggedNode ''n2'' [''x''] 0, taggedNode ''n3'' [] 0]
     = [(''x'', [taggedNode ''n1'' [''x''] 0, taggedNode ''n2'' [''x''] 0]),
        (''untagged'', [taggedNode ''n3'' [] 0])]
   \<and> (\<exists>r. computeLayout codeUnitLe byTags
          [taggedNode ''n1'' [''x''] 0, taggedNode ''n2'' [''x''] 0, taggedNode ''n3'' [] 0] [] None
            = Some r
         \<and> groups r ''x'' = Some [''n1'', ''n2''] \<and> groups r ''untagged'' = Some [''n3'']
         \<and> layers r ''n1'' = Some (Fin 0) \<and> layers r ''n2'' = Some (Fin 0)
         \<and> layers r ''n3'' = Some (Fin 1))"
  by (simp add: layout_eval)

lemma layoutByTags_sorted_example:
  "map fst (tagEntries codeUnitLe
     [taggedNode ''n1'' [''pear'', ''a''] 0, taggedNode ''n2'' [] 0, taggedNode ''n3'' [''apple''] 0,
      taggedNode ''n4'' [''pear''] (-5)])
     = [''apple'', ''pear'', ''untagged'']
   \<and> (\<exists>r. computeLayout codeUnitLe byTags
     [taggedNode ''n1'' [''pear'', ''a''] 0, taggedNode ''n2'' [] 0, taggedNode ''n3'' [''apple''] 0,
      taggedNode ''n4'' [''pear''] (-5)] [] None = Some r \<and> groups r ''pear'' = Some [''n4'', ''n1''])"
  by (simp add: layout_eval)

subsection \<open>Grid alignment\<close>

text \<open>
  Claim C9, as stated: for every mode and all options with a positive grid size, every
  coordinate of the result is an integer multiple of the grid size. The option
  \<^verbatim>\<open>maxPerColumn\<close> is not validated: with \<^verbatim>\<open>maxPerColumn = 0\<close> the layout by time computes
  \<^verbatim>\<open>Math.floor(0 / 0)\<close> and \<^verbatim>\<open>0 % 0\<close>, and both coordinates of the node are \<^verbatim>\<open>NaN\<close>.
\<close>

theorem layoutByTime_zero_column_length:
  "gridSize (ensureOptions (Some \<lparr>gridSize_opt = Given (Fin 8), columnSpacing_opt = Absent,
           rowSpacing_opt = Absent, margin_opt = Absent, maxPerColumn_opt = Given (Fin 0)\<rparr>))
     = Fin 8
   \<and> computeLayout codeUnitLe byTime [plainNode ''a'' 0 0] []
        (Some \<lparr>gridSize_opt = Given (Fin 8), columnSpacing_opt = Absent, rowSpacing_opt = Absent,
               margin_opt = Absent, maxPerColumn_opt = Given (Fin 0)\<rparr>)
       = Some \<lparr>positions = [''a'' \<mapsto> \<lparr>xc = NaN, yc = NaN\<rparr>],
               groups = [''time:NaN'' \<mapsto> [''a'']],
               layers = [''a'' \<mapsto> NaN]\<rparr>"
  by (simp add: layout_eval)

text \<open>The other options are not validated either. An option that is present with the
  value \<^verbatim>\<open>undefined\<close> replaces its default, and an option may be infinite: with a grid size
  of \<open>8\<close>, a margin that is \<^verbatim>\<open>undefined\<close> gives the coordinates \<^verbatim>\<open>NaN\<close> in every mode, and an
  infinite margin gives infinite coordinates.\<close>

lemma computeLayout_undefined_margin:
  "computeLayout codeUnitLe flowGrid [plainNode ''a'' 0 0] []
     (Some \<lparr>gridSize_opt = Given (Fin 8), columnSpacing_opt = Absent, rowSpacing_opt = Absent,
            margin_opt = Undefined, maxPerColumn_opt = Absent\<rparr>)
     = Some \<lparr>positions = [''a'' \<mapsto> \<lparr>xc = NaN, yc = NaN\<rparr>],
             groups = [''layer:0'' \<mapsto> [''a'']],
             layers = [''a'' \<mapsto> Fin 0]\<rparr>"
  by (simp add: layout_eval fun_eq_iff)

lemma computeLayout_infinite_margin:
  "computeLayout codeUnitLe byTypes [plainNode ''a'' 0 0] []
     (Some \<lparr>gridSize_opt = Given (Fin 8), columnSpacing_opt = Absent, rowSpacing_opt = Absent,
            margin_opt = Given PosInf, maxPerColumn_opt = Absent\<rparr>)
     = Some \<lparr>positions = [''a'' \<mapsto> \<lparr>xc = PosInf, yc = PosInf\<rparr>],
             groups = [''note'' \<mapsto> [''a'']],
             layers = [''a'' \<mapsto> Fin 0]\<rparr>"
  by (simp add: layout_eval scale_inf_def)

lemma gridAligned_computeLayout:
  assumes "finiteOptions g (ensureOptions options)"
    and "mode = byTime \<longrightarrow>
           maxPerColumn (ensureOptions options) \<noteq> NaN \<and> maxPerColumn (ensureOptions options) \<noteq> Fin 0"
    and "computeLayout localeLe mode nodes edges options = Some r"
  shows "gridAligned g r"
proof (cases mode)
  case flowGrid
  with assms(3) show ?thesis
    by (simp add: computeLayout_def gridAligned_computeFlowGridLayout [OF assms(1)])
next
  case byTags
  with assms(3) show ?thesis
    by (auto simp: computeLayout_def layoutByTags_def
          gridAligned_assignPositionsFromGroups [OF assms(1)])
next
  case byTypes
  with assms(3) show ?thesis
    by (auto simp: computeLayout_def layoutByTypes_def
          gridAligned_assignPositionsFromGroups [OF assms(1)])
next
  case byCausality
  with assms(3) show ?thesis
    by (simp add: computeLayout_def gridAligned_computeFlowGridLayout [OF assms(1)])
next
  case byTime
  with assms(2) have "maxPerColumn (ensureOptions options) \<noteq> NaN"
    and "maxPerColumn (ensureOptions options) \<noteq> Fin 0"
    by simp_all
  from gridAligned_layoutByTime [OF assms(1) this] byTime assms(3) show ?thesis
    by (auto simp: computeLayout_def)
qed

text \<open>
  Claim C9, amended. Let the arithmetic on finite numbers be exact. For every mode, node
  list and edge list, and all options whose resolved grid size is a positive finite
  number, whose resolved margin, column spacing and row spacing are finite numbers (so
  none of the four is given as \<^verbatim>\<open>undefined\<close>, \<^verbatim>\<open>NaN\<close> or an infinity) and, in the layout by
  time, whose resolved \<^verbatim>\<open>maxPerColumn\<close> is neither zero nor \<^verbatim>\<open>NaN\<close> (nor \<^verbatim>\<open>undefined\<close>),
  \<^verbatim>\<open>computeLayout\<close> returns a result in which both coordinates of every position are
  finite integer multiples of the grid size.

  The code computes a coordinate as the product of an integer and the grid size in IEEE
  doubles. That product rounds (three times \<open>0.1\<close> is not \<open>0.3\<close> there) and may overflow;
  neither is within the reach of this model, whence the assumption of exact arithmetic.
\<close>

theorem computeLayout_grid_aligned:
  assumes "ensureOptions options =
             \<lparr>gridSize = Fin g, columnSpacing = Fin cs, rowSpacing = Fin rs, margin = Fin m,
              maxPerColumn = p\<rparr>"
    and "0 < g"
    and "mode = byTime \<longrightarrow> p \<noteq> NaN \<and> p \<noteq> Fin 0"
  shows "\<exists>r. computeLayout localeLe mode nodes edges options = Some r
           \<and> (\<forall>k pos. positions r k = Some pos \<longrightarrow>
                 (\<exists>i j. xc pos = Fin (real_of_int i * g) \<and> yc pos = Fin (real_of_int j * g)))"
proof -
  from computeLayout_returns [of localeLe mode nodes edges options]
  obtain r where r: "computeLayout localeLe mode nodes edges options = Some r" ..
  from assms(2) have fin: "finiteOptions g (ensureOptions options)"
    unfolding finiteOptions_def assms(1) by simp
  from assms(3) have per: "mode = byTime \<longrightarrow>
      maxPerColumn (ensureOptions options) \<noteq> NaN \<and> maxPerColumn (ensureOptions options) \<noteq> Fin 0"
    unfolding assms(1) by simp
  have al: "gridAligned g r"
    using fin per r by (rule gridAligned_computeLayout)
  have "\<exists>i j. xc pos = Fin (real_of_int i * g) \<and> yc pos = Fin (real_of_int j * g)"
    if "positions r k = Some pos" for k pos
  proof -
    from al that have "onGrid g (xc pos)" and "onGrid g (yc pos)"
      unfolding gridAligned_def by simp_all
    then obtain i j where "xc pos = Fin (real_of_int i * g)" and "yc pos = Fin (real_of_int j * g)"
      unfolding onGrid_def by (elim exE)
    then show ?thesis
      by (intro exI [of _ i] exI [of _ j] conjI)
  qed
  then have "\<forall>k pos. positions r k = Some pos \<longrightarrow>
          (\<exists>i j. xc pos = Fin (real_of_int i * g) \<and> yc pos = Fin (real_of_int j * g))"
    by (intro allI impI)
  with r show ?thesis
    by (intro exI [of _ r] conjI)
qed

theorem computeLayout_grid_aligned_witness:
  "ensureOptions (Some \<lparr>gridSize_opt = Given (Fin 8), columnSpacing_opt = Absent,
           rowSpacing_opt = Absent, margin_opt = Absent, maxPerColumn_opt = Given (Fin 2)\<rparr>)
     = \<lparr>gridSize = Fin 8, columnSpacing = Fin 240, rowSpacing = Fin 160, margin = Fin 120,
        maxPerColumn = Fin 2\<rparr>
   \<and> (0::real) < 8 \<and> Fin 2 \<noteq> NaN \<and> Fin 2 \<noteq> Fin 0
   \<and> (\<exists>r. computeLayout codeUnitLe byTime
              [plainNode ''a'' 0 0, plainNode ''b'' 0 0, plainNode ''c'' 0 0] []
              (Some \<lparr>gridSize_opt = Given (Fin 8), columnSpacing_opt = Absent,
                     rowSpacing_opt = Absent, margin_opt = Absent,
                     maxPerColumn_opt = Given (Fin 2)\<rparr>) = Some r
          \<and> positions r ''c'' = Some \<lparr>xc = Fin 360, yc = Fin 120\<rparr>
          \<and> (\<exists>i j. Fin 360 = Fin (real_of_int i * 8) \<and> Fin 120 = Fin (real_of_int j * 8)))"
proof -
  let ?o = "Some \<lparr>gridSize_opt = Given (Fin 8), columnSpacing_opt = Absent,
                  rowSpacing_opt = Absent, margin_opt = Absent,
                  maxPerColumn_opt = Given (Fin 2)\<rparr>"
  let ?ns = "[plainNode ''a'' 0 0, plainNode ''b'' 0 0, plainNode ''c'' 0 0]"
  have o: "ensureOptions ?o
             = \<lparr>gridSize = Fin 8, columnSpacing = Fin 240, rowSpacing = Fin 160, margin = Fin 120,
                maxPerColumn = Fin 2\<rparr>"
    by (simp add: ensureOptions_def spreadOver_def DEFAULT_LAYOUT_OPTIONS_def)
  have g: "(0::real) < 8" and n1: "Fin 2 \<noteq> NaN" and n2: "Fin 2 \<noteq> Fin 0"
    by simp_all
  from n1 n2 have m: "byTime = byTime \<longrightarrow> Fin 2 \<noteq> NaN \<and> Fin 2 \<noteq> Fin 0"
    by simp
  from computeLayout_grid_aligned [OF o g m, of codeUnitLe ?ns "[]"]
  obtain r where r: "computeLayout codeUnitLe byTime ?ns [] ?o = Some r"
    and al: "\<forall>k pos. positions r k = Some pos \<longrightarrow>
          (\<exists>i j. xc pos = Fin (real_of_int i * 8) \<and> yc pos = Fin (real_of_int j * 8))"
    by (elim exE conjE)
  have "positions (the (computeLayout codeUnitLe byTime ?ns [] ?o)) ''c''
          = Some \<lparr>xc = Fin 360, yc = Fin 120\<rparr>"
    by (simp add: layout_eval)
  with r have p: "positions r ''c'' = Some \<lparr>xc = Fin 360, yc = Fin 120\<rparr>"
    by simp
  from al [rule_format, OF p]
  have e: "\<exists>i j. Fin 360 = Fin (real_of_int i * 8) \<and> Fin 120 = Fin (real_of_int j * 8)"
    by simp
  from o g n1 n2 r p e show ?thesis
    by (intro conjI exI [of _ r])
qed

subsection \<open>The result is total and partitions the nodes\<close>

text \<open>
  Claim C10: for every mode and every node list with distinct ids, the positions of the
  result are defined on exactly the ids of the nodes, and the id of every node is in
  exactly one group. The groups are a \<^verbatim>\<open>Map\<close>, but the positions are a plain object, and a
  node id is any string. For a node with the id \<^verbatim>\<open>__proto__\<close> the assignment
  \<^verbatim>\<open>positions[node.id] = { x, y }\<close> replaces the prototype of the object and stores no
  property: the node is listed in its group and has a layer, but the positions have no
  entry for it. So it is in the flow layout, in the layout by time, and in the two other
  layouts, which share the assignment.
\<close>

theorem computeLayout_proto_id_has_no_position:
  "distinct (map node_id [plainNode ''a'' 0 0, plainNode ''__proto__'' 0 10])
   \<and> computeLayout codeUnitLe flowGrid [plainNode ''a'' 0 0, plainNode ''__proto__'' 0 10] [] None
       = Some \<lparr>positions = [''a'' \<mapsto> \<lparr>xc = Fin 120, yc = Fin 120\<rparr>],
               groups = [''layer:0'' \<mapsto> [''a'', ''__proto__'']],
               layers = [''a'' \<mapsto> Fin 0, ''__proto__'' \<mapsto> Fin 0]\<rparr>
   \<and> computeLayout codeUnitLe byTime [plainNode ''a'' 0 0, plainNode ''__proto__'' 0 10] [] None
       = Some \<lparr>positions = [''a'' \<mapsto> \<lparr>xc = Fin 120, yc = Fin 120\<rparr>],
               groups = [''time:0'' \<mapsto> [''a'', ''__proto__'']],
               layers = [''a'' \<mapsto> Fin 0, ''__proto__'' \<mapsto> Fin 0]\<rparr>
   \<and> dom [''a'' \<mapsto> \<lparr>xc = Fin 120, yc = Fin 120\<rparr>]
       \<noteq> set (map node_id [plainNode ''a'' 0 0, plainNode ''__proto__'' 0 10])"
  by (simp add: layout_eval fun_eq_iff)

text \<open>
  This id apart, the claim holds. For every mode, every node list with distinct ids and
  every edge list, \<^verbatim>\<open>computeLayout\<close> returns a result whose positions are defined on
  exactly the ids of the nodes other than \<^verbatim>\<open>__proto__\<close>, in which the id of every node is
  in exactly one group, and whose groups list only ids of nodes, none of them twice.
\<close>

lemma computeLayout_partition:
  assumes "distinct (map node_id nodes)"
  shows "\<exists>r. computeLayout localeLe mode nodes edges options = Some r
           \<and> dom (positions r) = set (map node_id nodes) - {''__proto__''}
           \<and> (\<forall>n \<in> set nodes. \<exists>!k. \<exists>ids. groups r k = Some ids \<and> node_id n \<in> set ids)
           \<and> (\<forall>k ids. groups r k = Some ids \<longrightarrow>
                 distinct ids \<and> set ids \<subseteq> set (map node_id nodes))"
proof -
  from computeLayout_returns [of localeLe mode nodes edges options]
  obtain r where r: "computeLayout localeLe mode nodes edges options = Some r" ..
  note p = placedExactly_partition [OF computeLayout_placedExactly [OF assms r]]
  have "dom (positions r) = set (map node_id nodes) - {''__proto__''}"
    using p(1) by simp
  moreover have "\<forall>n \<in> set nodes. \<exists>!k. \<exists>ids. groups r k = Some ids \<and> node_id n \<in> set ids"
  proof
    fix n assume "n \<in> set nodes"
    then have "node_id n \<in> node_id ` set nodes" by (rule imageI)
    then show "\<exists>!k. \<exists>ids. groups r k = Some ids \<and> node_id n \<in> set ids" by (rule p(2))
  qed
  moreover have "\<forall>k ids. groups r k = Some ids \<longrightarrow>
                 distinct ids \<and> set ids \<subseteq> set (map node_id nodes)"
    using p(3) by simp
  ultimately show ?thesis
    using r by (intro exI [of _ r] conjI)
qed

lemma computeLayout_partition_example:
  "distinct (map node_id [taggedNode ''n1'' [''pear''] 0, taggedNode ''n2'' [] 0,
                          taggedNode ''n3'' [''apple''] 0])
   \<and> (\<exists>r. computeLayout codeUnitLe byTags
              [taggedNode ''n1'' [''pear''] 0, taggedNode ''n2'' [] 0, taggedNode ''n3'' [''apple''] 0]
              [] None = Some r
          \<and> dom (positions r) = {''n1'', ''n2'', ''n3''}
          \<and> (\<exists>!k. \<exists>ids. groups r k = Some ids \<and> ''n1'' \<in> set ids)
          \<and> groups r ''pear'' = Some [''n1''])"
proof -
  let ?ns = "[taggedNode ''n1'' [''pear''] 0, taggedNode ''n2'' [] 0, taggedNode ''n3'' [''apple''] 0]"
  have d: "distinct (map node_id ?ns)"
    by (simp add: taggedNode_def plainNode_def)
  from computeLayout_partition [OF d, of codeUnitLe byTags "[]" None]
  obtain r where r: "computeLayout codeUnitLe byTags ?ns [] None = Some r"
    and dom: "dom (positions r) = set (map node_id ?ns) - {''__proto__''}"
    and one: "\<forall>n \<in> set ?ns. \<exists>!k. \<exists>ids. groups r k = Some ids \<and> node_id n \<in> set ids"
    by (elim exE conjE)
  have "taggedNode ''n1'' [''pear''] 0 \<in> set ?ns"
    by simp
  with one have "\<exists>!k. \<exists>ids. groups r k = Some ids
                   \<and> node_id (taggedNode ''n1'' [''pear''] 0) \<in> set ids"
    by (rule bspec)
  then have u: "\<exists>!k. \<exists>ids. groups r k = Some ids \<and> ''n1'' \<in> set ids"
    by (simp add: taggedNode_def plainNode_def)
  have "groups (the (computeLayout codeUnitLe byTags ?ns [] None)) ''pear'' = Some [''n1'']"
    by (simp add: layout_eval)
  with r have g: "groups r ''pear'' = Some [''n1'']"
    by simp
  from dom have dom': "dom (positions r) = {''n1'', ''n2'', ''n3''}"
    by (auto simp: taggedNode_def plainNode_def)
  from d r dom' u g show ?thesis
    by (intro conjI exI [of _ r])
qed

end
